theory Spec2Isabelle
  imports Main "HOL-Library.Char_ord" "HOL-Library.Sublist" "HOL-Library.AList"
begin

section \<open>An embedding of the AMT power-management client\<close>

text \<open>
  The client is two TypeScript modules. \<open>digest-auth\<close> fetches a Digest challenge from
  the device, parses it and computes the header \<open>Authorization\<close>; \<open>amt-manager\<close> resolves
  the host, sends a SOAP request with that header, retries it after a connection error
  and reads the power state or the result of a power-state change from the response.

  Each function of the two modules is a function here, with the name it has in the
  source. A thrown error is the left summand of a result. The mutable fields of the
  manager and the calls that reach the network are threaded through the functions as
  explicit states; the functions are total, and the two loops are defined with the
  measure that bounds their retries.
\<close>

section \<open>JavaScript values used by the client\<close>

text \<open>
  Strings are lists of characters: a character is one code unit of a header value, or
  one byte of the UTF-8 form of a response body. Every pattern the program searches for
  is ASCII, so the matches are those of the JavaScript string.

  A thrown value is an \<open>Error\<close> object; the program reads its \<open>message\<close> and, through
  the interface \<open>SystemError\<close>, the optional fields \<open>code\<close> and \<open>type\<close> (here \<open>errType\<close>).
\<close>

record JsError =
  message :: string
  code :: "string option"
  errType :: "string option"

text \<open>\<open>new Error(msg)\<close>: neither \<open>code\<close> nor \<open>type\<close> is set.\<close>

definition newError :: "string \<Rightarrow> JsError" where
  "newError msg = \<lparr>message = msg, code = None, errType = None\<rparr>"

text \<open>The character classes \<open>\w\<close> and \<open>\d\<close> of a regular expression without the unicode flag.\<close>

definition isWordChar :: "char \<Rightarrow> bool" where
  "isWordChar c \<longleftrightarrow>
     (CHR ''a'' \<le> c \<and> c \<le> CHR ''z'') \<or> (CHR ''A'' \<le> c \<and> c \<le> CHR ''Z'') \<or>
     (CHR ''0'' \<le> c \<and> c \<le> CHR ''9'') \<or> c = CHR ''_''"

definition isDigitChar :: "char \<Rightarrow> bool" where
  "isDigitChar c \<longleftrightarrow> CHR ''0'' \<le> c \<and> c \<le> CHR ''9''"

definition notQuote :: "char \<Rightarrow> bool" where
  \<open>notQuote c \<longleftrightarrow> c \<noteq> CHR ''"''\<close>

text \<open>Matching a literal at the head of the input: the rest of the input, if it is there.\<close>

fun stripPrefix :: "string \<Rightarrow> string \<Rightarrow> string option" where
  "stripPrefix [] s = Some s"
| "stripPrefix (p # ps) [] = None"
| "stripPrefix (p # ps) (c # cs) = (if p = c then stripPrefix ps cs else None)"

text \<open>\<open>String.prototype.includes\<close>: the pattern occurs at some position of the text.\<close>

fun includesStr :: "string \<Rightarrow> string \<Rightarrow> bool" where
  "includesStr [] pat = (stripPrefix pat [] \<noteq> None)"
| "includesStr (c # cs) pat = (stripPrefix pat (c # cs) \<noteq> None \<or> includesStr cs pat)"

text \<open>Decimal rendering of an integer, as a template literal renders an integral number
  (of magnitude below \<open>10^21\<close>, where JavaScript switches to exponent notation).\<close>

definition digitChar :: "nat \<Rightarrow> char" where
  "digitChar d = ''0123456789'' ! d"

fun showNat :: "nat \<Rightarrow> string" where
  "showNat n = (if n < 10 then [digitChar n] else showNat (n div 10) @ [digitChar (n mod 10)])"

declare showNat.simps [simp del]

definition showInt :: "int \<Rightarrow> string" where
  "showInt i = (if i < 0 then CHR ''-'' # showNat (nat (- i)) else showNat (nat i))"

text \<open>An optional number inside a template literal: \<open>undefined\<close> renders as that word.\<close>

definition showOptInt :: "int option \<Rightarrow> string" where
  "showOptInt v = (case v of None \<Rightarrow> ''undefined'' | Some i \<Rightarrow> showInt i)"

section \<open>digest-auth: parsing the challenge\<close>

text \<open>
  \<open>AuthParams\<close> has the two named fields and an index signature; the latter is the map
  \<open>extra\<close>.
\<close>

record AuthParams =
  realm :: string
  nonce :: string
  extra :: "string \<rightharpoonup> string"

text \<open>
  One attempt of the pattern \<^verbatim>\<open>(\w+)="([^"]+)"\<close> at the head of the input. Both repetitions are
  greedy, and neither can give a character back: the run of word characters must be
  followed by \<open>=\<close>, which is no word character, and the run of non-quotes by a quote. The
  result is the two groups and the input after the match.
\<close>

definition matchPairAt :: "string \<Rightarrow> (string \<times> string \<times> string) option" where
  \<open>matchPairAt s =
     (let key = takeWhile isWordChar s in
      if key = [] then None
      else case stripPrefix ''="'' (dropWhile isWordChar s) of
        None \<Rightarrow> None
      | Some r \<Rightarrow>
          (let val = takeWhile notQuote r in
           if val = [] then None
           else case dropWhile notQuote r of
             [] \<Rightarrow> None
           | q # rest \<Rightarrow> Some (key, val, rest)))\<close>

text \<open>\<open>regex.exec\<close> with the global flag: the leftmost match at or after \<open>lastIndex\<close>; the
  argument is the input from \<open>lastIndex\<close> on, the third component what follows the match.\<close>

fun execPair :: "string \<Rightarrow> (string \<times> string \<times> string) option" where
  "execPair [] = None"
| "execPair (c # cs) =
     (case matchPairAt (c # cs) of Some m \<Rightarrow> Some m | None \<Rightarrow> execPair cs)"

text \<open>
  \<open>authParams[match[1]] = match[2]\<close>. The key \<open>__proto__\<close> reaches the inherited setter,
  which ignores a string, so no property is written.
\<close>

definition assign :: "AuthParams \<Rightarrow> string \<Rightarrow> string \<Rightarrow> AuthParams" where
  "assign p k v =
     (if k = ''realm'' then p\<lparr>realm := v\<rparr>
      else if k = ''nonce'' then p\<lparr>nonce := v\<rparr>
      else if k = ''__proto__'' then p
      else p\<lparr>extra := (extra p)(k \<mapsto> v)\<rparr>)"

lemma stripPrefix_length: "stripPrefix p s = Some r \<Longrightarrow> length r \<le> length s"
  by (induction p s rule: stripPrefix.induct) (auto split: if_splits)

lemma matchPairAt_shorter:
  assumes "matchPairAt s = Some (k, v, rest)"
  shows "length rest < length s"
proof -
  from assms obtain r q where r: "stripPrefix ''=\"'' (dropWhile isWordChar s) = Some r"
    and q: "dropWhile notQuote r = q # rest"
    by (auto simp: matchPairAt_def Let_def split: if_splits option.splits list.splits)
  have "length rest < length (dropWhile notQuote r)" using q by simp
  also have "\<dots> \<le> length r" by (rule length_dropWhile_le)
  also have "\<dots> \<le> length (dropWhile isWordChar s)" using r by (rule stripPrefix_length)
  also have "\<dots> \<le> length s" by (rule length_dropWhile_le)
  finally show ?thesis .
qed

lemma execPair_shorter: "execPair s = Some (k, v, rest) \<Longrightarrow> length rest < length s"
proof (induction s)
  case Nil
  then show ?case by simp
next
  case (Cons c cs)
  show ?case
  proof (cases "matchPairAt (c # cs)")
    case None
    with Cons show ?thesis by fastforce
  next
    case (Some m)
    with Cons.prems have "matchPairAt (c # cs) = Some (k, v, rest)" by simp
    then show ?thesis by (rule matchPairAt_shorter)
  qed
qed

text \<open>The loop \<open>while (match = regex.exec(authHeader))\<close>.\<close>

function scanLoop :: "string \<Rightarrow> AuthParams \<Rightarrow> AuthParams" where
  "scanLoop s p =
     (case execPair s of
        None \<Rightarrow> p
      | Some (k, v, rest) \<Rightarrow> scanLoop rest (assign p k v))"
  by pat_completeness auto
termination
  by (relation "measure (\<lambda>(s, p). length s)") (auto dest: execPair_shorter)

declare scanLoop.simps [simp del]

definition parseAuthHeader :: "string \<Rightarrow> JsError + AuthParams" where
  "parseAuthHeader authHeader =
     (let authParams = scanLoop authHeader \<lparr>realm = [], nonce = [], extra = Map.empty\<rparr> in
      if realm authParams = [] \<or> nonce authParams = []
      then Inl (newError ''Missing required digest authentication parameters'')
      else Inr authParams)"

section \<open>Numbers\<close>

text \<open>
  A JavaScript \<open>number\<close> is a double. One that holds an integer is a \<open>Num\<close>, and
  \<open>Infinity\<close> is what a result beyond the largest double becomes. \<open>toNumber n\<close> is the
  Number value of the whole number \<open>n\<close>: the nearest double, ties to the even
  significand, and \<open>Infinity\<close> when that is \<open>2^1024\<close> or more. An integer below \<open>2^53\<close> is
  its own Number value. \<open>bitLength n\<close> is the number of binary digits of \<open>n\<close>, and a
  double has 53 of them.
\<close>

datatype JsNumber = Num int | Infinity

fun bitLength :: "nat \<Rightarrow> nat" where
  "bitLength n = (if n = 0 then 0 else Suc (bitLength (n div 2)))"

declare bitLength.simps [simp del]

definition toNumber :: "nat \<Rightarrow> JsNumber" where
  "toNumber n =
     (if n < 2 ^ 53 then Num (int n)
      else
        let e = bitLength n - 53;
            q = n div 2 ^ e;
            r = n mod 2 ^ e;
            half = 2 ^ (e - 1);
            q' = (if half < r \<or> (r = half \<and> odd q) then q + 1 else q);
            v = q' * 2 ^ e
        in if 2 ^ 1024 \<le> v then Infinity else Num (int v))"

text \<open>The product \<open>x * k\<close> of a Number \<open>x\<close> that holds a whole number with a positive whole
  number \<open>k\<close>: the Number value of the exact product, and \<open>Infinity\<close> stays \<open>Infinity\<close>.\<close>

definition timesNumber :: "JsNumber \<Rightarrow> nat \<Rightarrow> JsNumber" where
  "timesNumber x k = (case x of Num v \<Rightarrow> toNumber (nat v * k) | Infinity \<Rightarrow> Infinity)"

section \<open>The environment\<close>

text \<open>
  What the program cannot compute is read from a world: the hash function of the crypto
  library, its random values, and the outcome of every name lookup and every HTTP
  exchange, each numbered by the order of the calls from its call site.
\<close>

text \<open>The response of the device: \<open>text()\<close> reads the body, and may fail.\<close>

record Response =
  status :: nat
  statusText :: string
  bodyText :: "JsError + string"

text \<open>\<open>response.ok\<close> of node-fetch: the status is in the range 200 to 299.\<close>

definition ok :: "Response \<Rightarrow> bool" where
  "ok r \<longleftrightarrow> 200 \<le> status r \<and> status r < 300"

record World =
  md5Hex :: "string \<Rightarrow> string"
  randomBytesHex :: "nat \<Rightarrow> string"
  randomUUID :: "nat \<Rightarrow> string"
  dnsLookup :: "nat \<Rightarrow> JsError + string"
  challengeFetch :: "nat \<Rightarrow> JsError + string option"
  requestFetch :: "nat \<Rightarrow> JsError + Response"

text \<open>
  \<open>md5Hex w s\<close> is \<open>crypto.createHash('md5').update(s).digest('hex')\<close>;
  \<open>randomBytesHex w k\<close> is the \<open>k\<close>-th value of \<open>crypto.randomBytes(16).toString('hex')\<close>;
  \<open>dnsLookup w k\<close> is the outcome of the \<open>k\<close>-th \<open>lookup\<close>, an error or the address;
  \<open>challengeFetch w k\<close> is the outcome of the \<open>k\<close>-th unauthenticated \<open>fetch\<close> of
  \<open>getDigestHeader\<close>: an error, or what \<open>response.headers.get('www-authenticate')\<close>
  returns (\<open>None\<close> for \<open>null\<close>);
  \<open>requestFetch w k\<close> is the outcome of the \<open>k\<close>-th \<open>fetch\<close> of \<open>makeRequest\<close>.
\<close>

text \<open>The agent built by \<open>resolveHost\<close>: \<open>secure\<close> tells an \<open>https.Agent\<close> from an
  \<open>http.Agent\<close>; the other fields are the options passed to it.\<close>

record Agent =
  secure :: bool
  rejectUnauthorized :: "bool option"
  keepAlive :: bool
  agentTimeout :: "int option"
  ciphers :: "string option"
  secureProtocol :: "string option"
  family :: "nat option"

text \<open>The second argument of the \<open>fetch\<close> of \<open>makeRequest\<close>, with the URL. The value of
  the header \<open>Authorization\<close> may be \<open>undefined\<close>.\<close>

record Request =
  reqUrl :: string
  reqMethod :: string
  reqHeaders :: "(string \<times> string option) list"
  reqBody :: string
  reqAgent :: "Agent option"
  reqTimeout :: "int option"

text \<open>
  The calls that reach the outside, in the order the program makes them:
  \<open>Lookup host family addrconfig\<close>, the unauthenticated \<open>ChallengeFetch url method headers\<close>
  of \<open>getDigestHeader\<close> and its \<open>setTimeout\<close> (\<open>ChallengeWait\<close>, with the delay it is
  handed, in milliseconds), the \<open>RequestFetch\<close> of \<open>makeRequest\<close> and its \<open>setTimeout\<close>
  (\<open>RetryWait\<close>).
\<close>

datatype Event =
    Lookup string nat bool
  | ChallengeFetch string string "(string \<times> string) list"
  | ChallengeWait JsNumber
  | RequestFetch Request
  | RetryWait JsNumber

record Io =
  randomCount :: nat
  uuidCount :: nat
  lookupCount :: nat
  challengeCount :: nat
  requestCount :: nat
  trace :: "Event list"

definition emit :: "Event \<Rightarrow> Io \<Rightarrow> Io" where
  "emit e io = io\<lparr>trace := trace io @ [e]\<rparr>"

section \<open>digest-auth: computing the header\<close>

text \<open>The field \<open>method\<close> of the options is \<open>httpMethod\<close> here.\<close>

record DigestOptions =
  url :: string
  username :: string
  password :: string
  httpMethod :: "string option"
  headers :: "(string \<times> string) list option"

text \<open>The retry count is a whole number, and so is the maximum.\<close>

record DigestHeaderOptions = DigestOptions +
  retryCount :: "nat option"
  maxRetries :: "int option"

text \<open>\<open>constructDigestAuthHeader\<close> draws the client nonce from the random source; the
  model takes it from the world and counts the draw.\<close>

definition constructDigestAuthHeader ::
    "World \<Rightarrow> AuthParams \<Rightarrow> ('a DigestOptions_scheme) \<Rightarrow> Io \<Rightarrow> string \<times> Io" where
  \<open>constructDigestAuthHeader w authParams options io =
     (let method' = (case httpMethod options of None \<Rightarrow> ''POST'' | Some m \<Rightarrow> m);
          cnonce = randomBytesHex w (randomCount io);
          nc = ''00000001'';
          qop = ''auth'';
          A1 = username options @ '':'' @ realm authParams @ '':'' @ password options;
          A2 = method' @ '':'' @ url options;
          ha1 = md5Hex w A1;
          ha2 = md5Hex w A2;
          response = md5Hex w
            (ha1 @ '':'' @ nonce authParams @ '':'' @ nc @ '':'' @ cnonce @ '':'' @ qop @ '':'' @ ha2)
      in (''Digest username="'' @ username options @ ''", realm="'' @ realm authParams @
          ''", nonce="'' @ nonce authParams @ ''", uri="'' @ url options @
          ''", cnonce="'' @ cnonce @ ''", nc='' @ nc @ '', qop='' @ qop @
          '', response="'' @ response @ ''"'',
          io\<lparr>randomCount := randomCount io + 1\<rparr>))\<close>

text \<open>The request headers of the probe: the two fixed ones, overridden or followed by the
  caller's (an object spread).\<close>

definition probeHeaders :: "(string \<times> string) list \<Rightarrow> (string \<times> string) list" where
  "probeHeaders hs =
     fold (\<lambda>(k, v). AList.update k v) hs [(''User-Agent'', ''node-fetch''), (''Accept'', ''*/*'')]"

text \<open>The body of the \<open>try\<close> block of \<open>getDigestHeader\<close>, with the defaults of the
  destructuring already applied: the error thrown, or the header.\<close>

definition digestAttempt ::
    "World \<Rightarrow> string \<Rightarrow> string \<Rightarrow> string \<Rightarrow> string \<Rightarrow> (string \<times> string) list \<Rightarrow> Io
      \<Rightarrow> (JsError + string) \<times> Io" where
  "digestAttempt w url' username' password' method' headers' io =
     (let io1 = emit (ChallengeFetch url' method' (probeHeaders headers'))
                  (io\<lparr>challengeCount := challengeCount io + 1\<rparr>)
      in case challengeFetch w (challengeCount io) of
           Inl e \<Rightarrow> (Inl e, io1)
         | Inr wwwAuthenticate \<Rightarrow>
             if wwwAuthenticate = None \<or> wwwAuthenticate = Some []
             then (Inl (newError ''No WWW-Authenticate header received''), io1)
             else (case parseAuthHeader (the wwwAuthenticate) of
                     Inl e \<Rightarrow> (Inl e, io1)
                   | Inr authParams \<Rightarrow>
                       (case constructDigestAuthHeader w authParams
                               \<lparr>url = url', username = username', password = password',
                                httpMethod = Some method', headers = None\<rparr> io1 of
                          (digestHeader, io2) \<Rightarrow> (Inr digestHeader, io2))))"

definition optMethod :: "('a DigestOptions_scheme) \<Rightarrow> string" where
  "optMethod options = (case httpMethod options of None \<Rightarrow> ''GET'' | Some m \<Rightarrow> m)"

definition optHeaders :: "('a DigestOptions_scheme) \<Rightarrow> (string \<times> string) list" where
  "optHeaders options = (case headers options of None \<Rightarrow> [] | Some h \<Rightarrow> h)"

definition optRetryCount :: "DigestHeaderOptions \<Rightarrow> nat" where
  "optRetryCount options = (case retryCount options of None \<Rightarrow> 0 | Some n \<Rightarrow> n)"

definition optMaxRetries :: "DigestHeaderOptions \<Rightarrow> int" where
  "optMaxRetries options = (case maxRetries options of None \<Rightarrow> 3 | Some n \<Rightarrow> n)"

text \<open>\<open>Math.pow(2, retryCount) * 1000\<close>, the delay handed to \<open>setTimeout\<close>, in
  milliseconds: the power is the Number value of \<open>2^retryCount\<close>, and the product is
  rounded in its turn.\<close>

definition backoffDelay :: "nat \<Rightarrow> JsNumber" where
  "backoffDelay retryCount' = timesNumber (toNumber (2 ^ retryCount')) 1000"

text \<open>\<open>getDigestHeader\<close>: the result \<open>None\<close> is \<open>undefined\<close>.\<close>

function getDigestHeader :: "World \<Rightarrow> DigestHeaderOptions \<Rightarrow> Io \<Rightarrow> string option \<times> Io" where
  "getDigestHeader w options io =
     (case digestAttempt w (url options) (username options) (password options)
             (optMethod options) (optHeaders options) io of
        (Inr digestHeader, io1) \<Rightarrow> (Some digestHeader, io1)
      | (Inl error, io1) \<Rightarrow>
          if int (optRetryCount options) < optMaxRetries options
          then getDigestHeader w (options\<lparr>retryCount := Some (optRetryCount options + 1)\<rparr>)
                 (emit (ChallengeWait (backoffDelay (optRetryCount options))) io1)
          else (None, io1))"
  by pat_completeness auto
termination
  by (relation "measure (\<lambda>(w, options, io). nat (optMaxRetries options - int (optRetryCount options)))")
     (auto simp: optMaxRetries_def optRetryCount_def)

declare getDigestHeader.simps [simp del]

section \<open>amt-manager: configuration, resolution and the request loop\<close>

datatype PowerState = PowerOn | PowerOff | Reset

fun powerStateValue :: "PowerState \<Rightarrow> nat" where
  "powerStateValue PowerOn = 2"
| "powerStateValue PowerOff = 8"
| "powerStateValue Reset = 10"

datatype Protocol = Http | Https

text \<open>The field \<open>config\<close> of the manager, as the constructor leaves it: an optional field
  may hold \<open>undefined\<close>. Numbers of the configuration are integers. The field \<open>auth\<close> of
  the manager is written by the constructor and never read.\<close>

record AMTConfig =
  host :: string
  port :: "int option"
  username :: string
  password :: string
  protocol :: "Protocol option"
  timeout :: "int option"
  retries :: "int option"
  verifySSL :: "bool option"
  forceIPv4 :: "bool option"

record AMTManager =
  baseUrl :: string
  auth :: string
  config :: AMTConfig
  agent :: "Agent option"
  resolvedHost :: string

definition showProtocol :: "Protocol option \<Rightarrow> string" where
  "showProtocol p = (case p of None \<Rightarrow> ''undefined'' | Some Http \<Rightarrow> ''http'' | Some Https \<Rightarrow> ''https'')"

definition truthy :: "bool option \<Rightarrow> bool" where
  "truthy b \<longleftrightarrow> b = Some True"

definition resolveHost :: "World \<Rightarrow> AMTManager \<Rightarrow> Io \<Rightarrow> (JsError + unit) \<times> AMTManager \<times> Io" where
  "resolveHost w m io =
     (let cfg = config m;
          v4 = truthy (forceIPv4 cfg);
          io1 = emit (Lookup (host cfg) (if v4 then 4 else 0) v4)
                  (io\<lparr>lookupCount := lookupCount io + 1\<rparr>)
      in case dnsLookup w (lookupCount io) of
           Inl error \<Rightarrow>
             (Inl (newError (''Failed to resolve host '' @ host cfg @ '': '' @ message error)),
              m, io1)
         | Inr address \<Rightarrow>
             (Inr (),
              m\<lparr>resolvedHost := address,
                baseUrl := showProtocol (protocol cfg) @ ''://'' @ address @ '':'' @
                           showOptInt (port cfg) @ ''/wsman'',
                agent := Some
                  (if protocol cfg = Some Https
                   then \<lparr>secure = True, rejectUnauthorized = verifySSL cfg, keepAlive = True,
                         agentTimeout = timeout cfg, ciphers = Some ''ALL'',
                         secureProtocol = Some ''TLSv1_2_method'',
                         family = (if v4 then Some 4 else None)\<rparr>
                   else \<lparr>secure = False, rejectUnauthorized = None, keepAlive = True,
                         agentTimeout = timeout cfg, ciphers = None, secureProtocol = None,
                         family = (if v4 then Some 4 else None)\<rparr>)\<rparr>,
              io1))"

definition requestOptions :: "AMTManager \<Rightarrow> string option \<Rightarrow> string \<Rightarrow> string \<Rightarrow> Request" where
  "requestOptions m digestHeader action body =
     \<lparr>reqUrl = baseUrl m,
      reqMethod = ''POST'',
      reqHeaders =
        [(''Authorization'', digestHeader),
         (''Content-Type'', Some ''application/soap+xml;charset=UTF-8''),
         (''SOAPAction'', Some action),
         (''User-Agent'', Some ''Intel AMT Client''),
         (''Accept'', Some ''*/*''),
         (''Connection'', Some ''keep-alive'')],
      reqBody = body,
      reqAgent = agent m,
      reqTimeout = timeout (config m)\<rparr>"

text \<open>The \<open>try\<close> block of \<open>makeRequest\<close>: the \<open>fetch\<close>, and for a response that is not
  \<open>ok\<close> the reading of its body and the error thrown with it.\<close>

definition sendRequest :: "World \<Rightarrow> Request \<Rightarrow> Io \<Rightarrow> (JsError + Response) \<times> Io" where
  "sendRequest w req io =
     (let io1 = emit (RequestFetch req) (io\<lparr>requestCount := requestCount io + 1\<rparr>)
      in case requestFetch w (requestCount io) of
           Inl e \<Rightarrow> (Inl e, io1)
         | Inr response \<Rightarrow>
             if \<not> ok response
             then (case bodyText response of
                     Inl e \<Rightarrow> (Inl e, io1)
                   | Inr responseText \<Rightarrow>
                       (Inl (newError (''AMT request failed: '' @ showNat (status response) @
                                '' '' @ statusText response @ ''\<newline>Response: '' @
                                responseText)),
                        io1))
             else (Inr response, io1))"

text \<open>The condition of the \<open>catch\<close> block under which a failure is retried.\<close>

definition isConnectionError :: "JsError \<Rightarrow> bool" where
  "isConnectionError e \<longleftrightarrow>
     code e = Some ''ECONNRESET'' \<or> code e = Some ''ETIMEDOUT'' \<or>
     code e = Some ''ECONNREFUSED'' \<or> errType e = Some ''system''"

text \<open>\<open>retryCount < this.config.retries\<close>: a comparison with \<open>undefined\<close> is false.\<close>

definition retriesLeft :: "nat \<Rightarrow> int option \<Rightarrow> bool" where
  "retriesLeft n r = (case r of None \<Rightarrow> False | Some k \<Rightarrow> int n < k)"

definition exhaustedError :: "AMTManager \<Rightarrow> JsError \<Rightarrow> JsError" where
  "exhaustedError m systemError =
     newError (''Failed to connect to AMT device after '' @ showOptInt (retries (config m)) @
               '' attempts. '' @ ''Last error: '' @ message systemError @ '' ('' @
               resolvedHost m @ '':'' @ showOptInt (port (config m)) @ '')'')"

definition digestOptionsOf :: "AMTManager \<Rightarrow> DigestHeaderOptions" where
  "digestOptionsOf m =
     \<lparr>url = baseUrl m, DigestOptions.username = username (config m),
      DigestOptions.password = password (config m), httpMethod = Some ''POST'', headers = None,
      retryCount = None, maxRetries = retries (config m)\<rparr>"

lemma resolveHost_config: "resolveHost w m io = (r, m', io') \<Longrightarrow> config m' = config m"
  by (auto simp: resolveHost_def Let_def split: sum.splits)

function makeRequest ::
    "World \<Rightarrow> AMTManager \<Rightarrow> Io \<Rightarrow> string \<Rightarrow> string \<Rightarrow> nat
      \<Rightarrow> (JsError + Response) \<times> AMTManager \<times> Io" where
  "makeRequest w m io action body retryCount' =
     (case (if baseUrl m = [] \<or> agent m = None then resolveHost w m io else (Inr (), m, io)) of
        (Inl e, m1, io1) \<Rightarrow> (Inl e, m1, io1)
      | (Inr u, m1, io1) \<Rightarrow>
          (case getDigestHeader w (digestOptionsOf m1) io1 of
             (digestHeader, io2) \<Rightarrow>
               (case sendRequest w (requestOptions m1 digestHeader action body) io2 of
                  (Inr response, io3) \<Rightarrow> (Inr response, m1, io3)
                | (Inl error, io3) \<Rightarrow>
                    if isConnectionError error
                    then (if retriesLeft retryCount' (retries (config m1))
                          then (case resolveHost w m1 (emit (RetryWait (backoffDelay retryCount')) io3) of
                                  (Inl e, m2, io4) \<Rightarrow> (Inl e, m2, io4)
                                | (Inr u', m2, io4) \<Rightarrow>
                                    makeRequest w m2 io4 action body (retryCount' + 1))
                          else (Inl (exhaustedError m1 error), m1, io3))
                    else (Inl error, m1, io3))))"
  by pat_completeness auto
termination
proof (relation "measure (\<lambda>(w, m, io, action, body, n).
         nat ((case retries (config m) of None \<Rightarrow> 0 | Some k \<Rightarrow> k) - int n))", goal_cases)
  case 1
  show ?case by simp
next
  case (2 w m io action body n x y u m1 io1 dh io2 r3 io3 error r4 y4 u' m2 io4)
  from 2(1,3) have c1: "config m1 = config m"
    by (cases "baseUrl m = [] \<or> agent m = None") (auto dest: resolveHost_config [OF sym])
  from 2(9,11) have c2: "config m2 = config m1"
    by (auto dest: resolveHost_config [OF sym])
  from 2(8) c1 c2 show ?case
    by (auto simp: retriesLeft_def split: option.splits)
qed

declare makeRequest.simps [simp del]

section \<open>amt-manager: the envelopes\<close>

definition joinLines :: "string list \<Rightarrow> string" where
  "joinLines ls = concat (case ls of [] \<Rightarrow> [] | l # rest \<Rightarrow> l # map (\<lambda>x. CHR 0x0A # x) rest)"

definition createPowerStateChangeRequest :: "PowerState \<Rightarrow> string" where
  \<open>createPowerStateChangeRequest powerState =
     joinLines
      [''<?xml version="1.0" encoding="utf-8"?>'',
       ''      <Envelope xmlns:xsi="http://www.w3.org/2001/XMLSchema-instance"'',
       ''                xmlns:xsd="http://www.w3.org/2001/XMLSchema"'',
       ''                xmlns:a="http://schemas.xmlsoap.org/ws/2004/08/addressing"'',
       ''                xmlns:w="http://schemas.dmtf.org/wbem/wsman/1/wsman.xsd"'',
       ''                xmlns="http://www.w3.org/2003/05/soap-envelope">'',
       ''        <Header>'',
       ''          <a:Action>http://schemas.dmtf.org/wbem/wscim/1/cim-schema/2/CIM_PowerManagementService/RequestPowerStateChange</a:Action>'',
       ''          <a:To>/wsman</a:To>'',
       ''          <w:ResourceURI>http://schemas.dmtf.org/wbem/wscim/1/cim-schema/2/CIM_PowerManagementService</w:ResourceURI>'',
       ''          <a:MessageID>1</a:MessageID>'',
       ''          <a:ReplyTo>'',
       ''            <a:Address>http://schemas.xmlsoap.org/ws/2004/08/addressing/role/anonymous</a:Address>'',
       ''          </a:ReplyTo>'',
       ''          <w:OperationTimeout>PT60S</w:OperationTimeout>'',
       ''        </Header>'',
       ''        <Body>'',
       ''          <r:RequestPowerStateChange_INPUT xmlns:r="http://schemas.dmtf.org/wbem/wscim/1/cim-schema/2/CIM_PowerManagementService">'',
       ''            <r:PowerState>'' @ showNat (powerStateValue powerState) @ ''</r:PowerState>'',
       ''            <r:ManagedElement>'',
       ''              <Address xmlns="http://schemas.xmlsoap.org/ws/2004/08/addressing">http://schemas.xmlsoap.org/ws/2004/08/addressing</Address>'',
       ''              <ReferenceParameters xmlns="http://schemas.xmlsoap.org/ws/2004/08/addressing">'',
       ''                <ResourceURI xmlns="http://schemas.dmtf.org/wbem/wsman/1/wsman.xsd">http://schemas.dmtf.org/wbem/wscim/1/cim-schema/2/CIM_ComputerSystem</ResourceURI>'',
       ''                <SelectorSet xmlns="http://schemas.dmtf.org/wbem/wsman/1/wsman.xsd">'',
       ''                  <Selector Name="CreationClassName">CIM_ComputerSystem</Selector>'',
       ''                  <Selector Name="Name">ManagedSystem</Selector>'',
       ''                </SelectorSet>'',
       ''              </ReferenceParameters>'',
       ''            </r:ManagedElement>'',
       ''          </r:RequestPowerStateChange_INPUT>'',
       ''        </Body>'',
       ''      </Envelope>'']\<close>

definition createGetPowerStateRequest :: "string \<Rightarrow> string" where
  \<open>createGetPowerStateRequest uuid =
     joinLines
      [''<?xml version="1.0" encoding="utf-8"?>'',
       ''<Envelope xmlns="http://www.w3.org/2003/05/soap-envelope"'',
       ''          xmlns:a="http://schemas.xmlsoap.org/ws/2004/08/addressing"'',
       ''          xmlns:w="http://schemas.dmtf.org/wbem/wsman/1/wsman.xsd">'',
       ''  <Header>'',
       ''    <a:To>/wsman</a:To>'',
       ''    <a:Action>http://schemas.xmlsoap.org/ws/2004/09/transfer/Get</a:Action>'',
       ''    <a:MessageID>uuid:'' @ uuid @ ''</a:MessageID>'',
       ''    <a:ReplyTo>'',
       ''      <a:Address>http://schemas.xmlsoap.org/ws/2004/08/addressing/role/anonymous</a:Address>'',
       ''    </a:ReplyTo>'',
       ''    <w:ResourceURI>http://schemas.dmtf.org/wbem/wscim/1/cim-schema/2/CIM_AssociatedPowerManagementService</w:ResourceURI>'',
       ''    <w:SelectorSet>'',
       ''      <w:Selector Name="UserOfService">'',
       ''        <a:EndpointReference>'',
       ''          <a:Address>http://schemas.xmlsoap.org/ws/2004/08/addressing/role/anonymous</a:Address>'',
       ''          <a:ReferenceParameters>'',
       ''            <w:ResourceURI>http://schemas.dmtf.org/wbem/wscim/1/cim-schema/2/CIM_ComputerSystem</w:ResourceURI>'',
       ''            <w:SelectorSet>'',
       ''              <w:Selector Name="CreationClassName">CIM_ComputerSystem</w:Selector>'',
       ''              <w:Selector Name="Name">ManagedSystem</w:Selector>'',
       ''            </w:SelectorSet>'',
       ''          </a:ReferenceParameters>'',
       ''        </a:EndpointReference>'',
       ''      </w:Selector>'',
       ''      <w:Selector Name="ServiceProvided">'',
       ''        <a:EndpointReference>'',
       ''          <a:Address>http://schemas.xmlsoap.org/ws/2004/08/addressing/role/anonymous</a:Address>'',
       ''          <a:ReferenceParameters>'',
       ''            <w:ResourceURI>http://schemas.dmtf.org/wbem/wscim/1/cim-schema/2/CIM_PowerManagementService</w:ResourceURI>'',
       ''            <w:SelectorSet>'',
       ''              <w:Selector Name="CreationClassName">CIM_PowerManagementService</w:Selector>'',
       ''              <w:Selector Name="Name">Intel(r) AMT Power Management Service</w:Selector>'',
       ''              <w:Selector Name="SystemCreationClassName">CIM_ComputerSystem</w:Selector>'',
       ''              <w:Selector Name="SystemName">Intel(r) AMT</w:Selector>'',
       ''            </w:SelectorSet>'',
       ''          </a:ReferenceParameters>'',
       ''        </a:EndpointReference>'',
       ''      </w:Selector>'',
       ''    </w:SelectorSet>'',
       ''  </Header>'',
       ''  <Body/>'',
       ''</Envelope>'']\<close>

section \<open>amt-manager: reading the response\<close>

text \<open>
  The single attempt of the pattern \<^verbatim>\<open><r:PowerState>(\d+)<\/r:PowerState>\<close> at the head of
  the input, giving the group: the digits are a greedy run, and the closing tag starts
  with a character that is no digit, so the run is the whole of it.
\<close>

definition matchPowerStateAt :: "string \<Rightarrow> string option" where
  "matchPowerStateAt s =
     (case stripPrefix ''<r:PowerState>'' s of
        None \<Rightarrow> None
      | Some r \<Rightarrow>
          (let digits = takeWhile isDigitChar r in
           if digits = [] then None
           else case stripPrefix ''</r:PowerState>'' (dropWhile isDigitChar r) of
             None \<Rightarrow> None
           | Some rest \<Rightarrow> Some digits))"

text \<open>\<open>text.match(...)\<close> without the global flag: the leftmost match, or \<open>null\<close>.\<close>

fun matchPowerState :: "string \<Rightarrow> string option" where
  "matchPowerState [] = None"
| "matchPowerState (c # cs) =
     (case matchPowerStateAt (c # cs) of Some d \<Rightarrow> Some d | None \<Rightarrow> matchPowerState cs)"

text \<open>
  \<open>parseInt(digits, 10)\<close> on a string of decimal digits is the Number value of the integer
  the digits denote. (The language lets an implementation drop the digits after the
  twentieth significant one; the value here is the correctly rounded one, which V8
  returns.)
\<close>

definition digitValue :: "char \<Rightarrow> nat" where
  "digitValue c = of_char c - 48"

definition decimalValue :: "string \<Rightarrow> nat" where
  "decimalValue ds = foldl (\<lambda>a c. 10 * a + digitValue c) 0 ds"

definition parseInt10 :: "string \<Rightarrow> JsNumber" where
  "parseInt10 digits = toNumber (decimalValue digits)"

section \<open>amt-manager: the public operations\<close>

definition changePowerState ::
    "World \<Rightarrow> AMTManager \<Rightarrow> Io \<Rightarrow> PowerState \<Rightarrow> (JsError + bool) \<times> AMTManager \<times> Io" where
  "changePowerState w m io powerState =
     (case makeRequest w m io
             ''http://schemas.dmtf.org/wbem/wscim/1/cim-schema/2/CIM_PowerManagementService/RequestPowerStateChange''
             (createPowerStateChangeRequest powerState) 0 of
        (Inl error, m1, io1) \<Rightarrow> (Inl error, m1, io1)
      | (Inr response, m1, io1) \<Rightarrow>
          (case bodyText response of
             Inl error \<Rightarrow> (Inl error, m1, io1)
           | Inr text \<Rightarrow> (Inr (includesStr text ''ReturnValue>0</''), m1, io1)))"

definition powerOn :: "World \<Rightarrow> AMTManager \<Rightarrow> Io \<Rightarrow> (JsError + bool) \<times> AMTManager \<times> Io" where
  "powerOn w m io = changePowerState w m io PowerOn"

definition powerOff :: "World \<Rightarrow> AMTManager \<Rightarrow> Io \<Rightarrow> (JsError + bool) \<times> AMTManager \<times> Io" where
  "powerOff w m io = changePowerState w m io PowerOff"

definition reset :: "World \<Rightarrow> AMTManager \<Rightarrow> Io \<Rightarrow> (JsError + bool) \<times> AMTManager \<times> Io" where
  "reset w m io = changePowerState w m io Reset"

text \<open>The result of \<open>getPowerState\<close> for a response whose body has been read.\<close>

definition powerStateOf :: "string \<Rightarrow> JsNumber" where
  "powerStateOf text =
     (case matchPowerState text of Some digits \<Rightarrow> parseInt10 digits | None \<Rightarrow> Num (- 1))"

definition getPowerState ::
    "World \<Rightarrow> AMTManager \<Rightarrow> Io \<Rightarrow> (JsError + JsNumber) \<times> AMTManager \<times> Io" where
  "getPowerState w m io =
     (case makeRequest w m (io\<lparr>uuidCount := uuidCount io + 1\<rparr>)
             ''http://schemas.dmtf.org/wbem/wscim/1/wsman/Enumerate''
             (createGetPowerStateRequest (randomUUID w (uuidCount io))) 0 of
        (Inl error, m1, io1) \<Rightarrow> (Inl error, m1, io1)
      | (Inr response, m1, io1) \<Rightarrow>
          (case bodyText response of
             Inl error \<Rightarrow> (Inl error, m1, io1)
           | Inr text \<Rightarrow> (Inr (powerStateOf text), m1, io1)))"

definition testConnection :: "World \<Rightarrow> AMTManager \<Rightarrow> Io \<Rightarrow> bool \<times> AMTManager \<times> Io" where
  "testConnection w m io =
     (case getPowerState w m io of
        (Inl error, m1, io1) \<Rightarrow> (False, m1, io1)
      | (Inr n, m1, io1) \<Rightarrow> (True, m1, io1))"

section \<open>Observations on a run\<close>

text \<open>
  The statements below read a trace through the steps of the request loop: a name
  lookup, the authenticated request with its action and body, and the wait before a
  retry. The probes of \<open>getDigestHeader\<close> are no steps of the loop.
\<close>

datatype Step = Resolve | Send string string | Wait JsNumber

definition headerOf :: "Request \<Rightarrow> string \<Rightarrow> string" where
  "headerOf r k = (case map_of (reqHeaders r) k of Some (Some v) \<Rightarrow> v | _ \<Rightarrow> [])"

fun stepOf :: "Event \<Rightarrow> Step option" where
  "stepOf (Lookup h f a) = Some Resolve"
| "stepOf (ChallengeFetch u m hs) = None"
| "stepOf (ChallengeWait ms) = None"
| "stepOf (RequestFetch r) = Some (Send (headerOf r ''SOAPAction'') (reqBody r))"
| "stepOf (RetryWait ms) = Some (Wait ms)"

definition steps :: "Event list \<Rightarrow> Step list" where
  "steps evs = List.map_filter stepOf evs"

text \<open>The manager has a base URL and an agent, so \<open>makeRequest\<close> does not resolve the
  host on entry.\<close>

definition resolved :: "AMTManager \<Rightarrow> bool" where
  "resolved m \<longleftrightarrow> baseUrl m \<noteq> [] \<and> agent m \<noteq> None"

definition initialSteps :: "AMTManager \<Rightarrow> Step list" where
  "initialSteps m = (if resolved m then [] else [Resolve])"

definition retryRounds :: "string \<Rightarrow> string \<Rightarrow> nat \<Rightarrow> nat \<Rightarrow> Step list" where
  "retryRounds action body n N =
     concat (map (\<lambda>k. [Send action body, Wait (backoffDelay (n + k)), Resolve]) [0..<N])"

text \<open>The state of the outside after the \<open>fetch\<close> of \<open>makeRequest\<close>.\<close>

definition fetched :: "Request \<Rightarrow> Io \<Rightarrow> Io" where
  "fetched req io = emit (RequestFetch req) (io\<lparr>requestCount := requestCount io + 1\<rparr>)"

text \<open>The pairs that the loop of \<open>parseAuthHeader\<close> captures, in the order of the matches.\<close>

function captures :: "string \<Rightarrow> (string \<times> string) list" where
  "captures s =
     (case execPair s of
        None \<Rightarrow> []
      | Some (k, v, rest) \<Rightarrow> (k, v) # captures rest)"
  by pat_completeness auto
termination
  by (relation "measure length") (auto dest: execPair_shorter)

declare captures.simps [simp del]

text \<open>The value a key has after all assignments: that of its last capture.\<close>

definition captured :: "string \<Rightarrow> string \<Rightarrow> string option" where
  "captured h k = map_of (rev (captures h)) k"

text \<open>A challenge in the standard syntax: pairs \<^verbatim>\<open>key="value"\<close> separated by a comma and a
  space, a key being a non-empty run of word characters and a value a non-empty string
  without a quote.\<close>

definition wellFormedPair :: "string \<times> string \<Rightarrow> bool" where
  "wellFormedPair kv \<longleftrightarrow>
     fst kv \<noteq> [] \<and> list_all isWordChar (fst kv) \<and> snd kv \<noteq> [] \<and> list_all notQuote (snd kv)"

definition renderPair :: "string \<times> string \<Rightarrow> string" where
  \<open>renderPair kv = fst kv @ ''="'' @ snd kv @ ''"''\<close>

fun renderPairs :: "(string \<times> string) list \<Rightarrow> string" where
  "renderPairs [] = []"
| "renderPairs [kv] = renderPair kv"
| "renderPairs (kv # kvs) = renderPair kv @ '', '' @ renderPairs kvs"

text \<open>The \<open>k\<close>-th probe of \<open>getDigestHeader\<close> fails: the \<open>fetch\<close> throws, or the response
  has no header \<open>WWW-Authenticate\<close>, an empty one, or one that \<open>parseAuthHeader\<close> rejects.\<close>

definition challengeFails :: "World \<Rightarrow> nat \<Rightarrow> bool" where
  "challengeFails w k \<longleftrightarrow>
     (case challengeFetch w k of
        Inl e \<Rightarrow> True
      | Inr None \<Rightarrow> True
      | Inr (Some h) \<Rightarrow> h = [] \<or> isl (parseAuthHeader h))"

text \<open>The event of one probe, and the challenge rounds before attempt \<open>J\<close>: a probe and
  the wait that follows it.\<close>

definition probe :: "DigestHeaderOptions \<Rightarrow> Event" where
  "probe options = ChallengeFetch (url options) (optMethod options) (probeHeaders (optHeaders options))"

definition probeRounds :: "DigestHeaderOptions \<Rightarrow> nat \<Rightarrow> Event list" where
  "probeRounds options J =
     concat (map (\<lambda>i. [probe options, ChallengeWait (backoffDelay (optRetryCount options + i))]) [0..<J])"

text \<open>The text has, at offset \<open>i\<close>, an element \<^verbatim>\<open><r:PowerState>\<close> whose content is the
  non-empty run of decimal digits \<open>digits\<close>.\<close>

definition powerStateElementAt :: "string \<Rightarrow> nat \<Rightarrow> string \<Rightarrow> bool" where
  "powerStateElementAt text i digits \<longleftrightarrow>
     i \<le> length text \<and> digits \<noteq> [] \<and> list_all isDigitChar digits \<and>
     (\<exists>rest. drop i text = ''<r:PowerState>'' @ digits @ ''</r:PowerState>'' @ rest)"

subsection \<open>A sample device\<close>

definition sampleHash :: "string \<Rightarrow> string" where
  "sampleHash s = ''h('' @ s @ '')''"

definition sampleChallenge :: string where
  \<open>sampleChallenge =
     ''Digest realm="Digest:A4720000000000000000000000000000", nonce="jH2uAQAAAAAcyGIlXY8OFspUmTa5h5zS", stale="false", qop="auth"''\<close>

definition sampleWorld ::
    "(nat \<Rightarrow> JsError + string) \<Rightarrow> (nat \<Rightarrow> JsError + string option) \<Rightarrow> (nat \<Rightarrow> JsError + Response)
      \<Rightarrow> World" where
  "sampleWorld lookups challenges responses =
     \<lparr>md5Hex = sampleHash,
      randomBytesHex = (\<lambda>k. ''0a4f113b2c9d8e7f6a5b4c3d2e1f0a9b''),
      randomUUID = (\<lambda>k. ''6fa459ea-ee8a-3ca4-894e-db77e160355e''),
      dnsLookup = lookups,
      challengeFetch = challenges,
      requestFetch = responses\<rparr>"

text \<open>Outcomes that do not depend on the number of the call, and requests that fail
  \<open>n\<close> times before they are answered.\<close>

definition always :: "'a \<Rightarrow> nat \<Rightarrow> 'a" where
  "always x k = x"

definition failing :: "nat \<Rightarrow> JsError \<Rightarrow> Response \<Rightarrow> nat \<Rightarrow> JsError + Response" where
  "failing n e r k = (if k < n then Inl e else Inr r)"

text \<open>Probes answered without the header \<open>n\<close> times before the challenge \<open>c\<close> comes.\<close>

definition lateChallenge :: "nat \<Rightarrow> string \<Rightarrow> nat \<Rightarrow> JsError + string option" where
  "lateChallenge n c k = (if k < n then Inr None else Inr (Some c))"

definition sampleConfig :: AMTConfig where
  "sampleConfig =
     \<lparr>host = ''amt.example'', port = Some 16992, username = ''admin'', password = ''secret'',
      protocol = Some Http, timeout = Some 5000, retries = Some 3, verifySSL = Some False,
      forceIPv4 = Some True\<rparr>"

text \<open>The manager as the constructor leaves it.\<close>

definition sampleManager :: AMTManager where
  "sampleManager =
     \<lparr>baseUrl = [], auth = ''YWRtaW46c2VjcmV0'', config = sampleConfig, agent = None,
      resolvedHost = ''amt.example''\<rparr>"

text \<open>The same manager after a successful resolution.\<close>

definition sampleResolved :: AMTManager where
  "sampleResolved =
     sampleManager
       \<lparr>baseUrl := ''http://192.168.1.100:16992/wsman'',
        agent := Some \<lparr>secure = False, rejectUnauthorized = None, keepAlive = True,
                       agentTimeout = Some 5000, ciphers = None, secureProtocol = None,
                       family = Some 4\<rparr>,
        resolvedHost := ''192.168.1.100''\<rparr>"

definition sampleIo :: Io where
  "sampleIo =
     \<lparr>randomCount = 0, uuidCount = 0, lookupCount = 0, challengeCount = 0, requestCount = 0,
      trace = []\<rparr>"

definition connectionReset :: JsError where
  "connectionReset = \<lparr>message = ''read ECONNRESET'', code = Some ''ECONNRESET'', errType = Some ''system''\<rparr>"

definition notFound :: JsError where
  "notFound = \<lparr>message = ''getaddrinfo ENOTFOUND amt.example'', code = Some ''ENOTFOUND'', errType = None\<rparr>"

definition answer :: "nat \<Rightarrow> string \<Rightarrow> Response" where
  "answer st body = \<lparr>status = st, statusText = (if st = 200 then ''OK'' else ''Unauthorized''), bodyText = Inr body\<rparr>"

text \<open>The error that node-fetch raises when the \<open>timeout\<close> of the request options
  expires: its type is \<open>request-timeout\<close>, and it has no code.\<close>

definition requestTimeout :: JsError where
  "requestTimeout =
     \<lparr>message = ''network timeout at: http://192.168.1.100:16992/wsman'', code = None,
      errType = Some ''request-timeout''\<rparr>"

text \<open>The error of \<open>text()\<close> on a body whose stream breaks, an answer with such a body, and
  requests of which the first \<open>n\<close> are answered with one response and the later ones with
  another.\<close>

definition bodyAborted :: JsError where
  "bodyAborted =
     \<lparr>message = ''Invalid response body while trying to fetch http://192.168.1.100:16992/wsman: aborted'',
      code = Some ''ECONNRESET'', errType = Some ''system''\<rparr>"

definition unreadable :: "nat \<Rightarrow> Response" where
  "unreadable st =
     \<lparr>status = st, statusText = (if st = 200 then ''OK'' else ''Unauthorized''), bodyText = Inl bodyAborted\<rparr>"

definition answers :: "nat \<Rightarrow> Response \<Rightarrow> Response \<Rightarrow> nat \<Rightarrow> JsError + Response" where
  "answers n first later k = (if k < n then Inr first else Inr later)"

section \<open>Lemmas\<close>

subsection \<open>Literals and substrings\<close>

lemma stripPrefix_iff: "stripPrefix p s = Some r \<longleftrightarrow> s = p @ r"
  by (induction p s rule: stripPrefix.induct) auto

lemma stripPrefix_None_iff: "stripPrefix p s = None \<longleftrightarrow> (\<forall>r. s \<noteq> p @ r)"
  by (induction p s rule: stripPrefix.induct) auto

lemma run_then_stop:
  assumes "\<forall>c\<in>set xs. P c" and "\<not> P y"
  shows "takeWhile P (xs @ y # ys) = xs" and "dropWhile P (xs @ y # ys) = y # ys"
  using assms by (induction xs) auto

lemma includesStr_iff: "includesStr t p \<longleftrightarrow> sublist p t"
proof (induction t)
  case Nil
  show ?case by (cases p) simp_all
next
  case (Cons c cs)
  have "stripPrefix p (c # cs) \<noteq> None \<longleftrightarrow> prefix p (c # cs)"
  proof (cases "stripPrefix p (c # cs)")
    case None
    then show ?thesis by (auto simp: stripPrefix_None_iff prefix_def)
  next
    case (Some r)
    then show ?thesis by (auto simp: stripPrefix_iff prefix_def)
  qed
  with Cons show ?case by (simp add: sublist_Cons_right)
qed

subsection \<open>Numbers\<close>

lemma bitLength_bound: "n < 2 ^ k \<Longrightarrow> bitLength n \<le> k"
proof (induction k arbitrary: n)
  case 0
  then show ?case by (simp add: bitLength.simps)
next
  case (Suc k)
  show ?case
  proof (cases "n = 0")
    case True
    then show ?thesis by (simp add: bitLength.simps)
  next
    case False
    from Suc.prems have "n div 2 < 2 ^ k" by simp
    from Suc.IH [OF this] False show ?thesis by (subst bitLength.simps) simp
  qed
qed

lemma bitLength_lower: "2 ^ k \<le> n \<Longrightarrow> k < bitLength n"
proof (induction k arbitrary: n)
  case 0
  then show ?case by (subst bitLength.simps) simp
next
  case (Suc k)
  then have "2 ^ k \<le> n div 2" by simp
  moreover from Suc.prems have "n \<noteq> 0" by (cases "n = 0") simp_all
  ultimately show ?case using Suc.IH [of "n div 2"] by (subst bitLength.simps) simp
qed

lemma bitLength_shift: "0 < c \<Longrightarrow> bitLength (c * 2 ^ n) = bitLength c + n"
proof (induction n)
  case 0
  then show ?case by simp
next
  case (Suc n)
  have "bitLength (c * 2 ^ Suc n) = Suc (bitLength ((c * 2 ^ Suc n) div 2))"
    using Suc.prems by (subst bitLength.simps) simp
  also have "(c * 2 ^ Suc n) div 2 = c * 2 ^ n" by simp
  finally show ?case using Suc by simp
qed

text \<open>A whole number of at most 53 binary digits, shifted: its Number value is itself
  while it is below \<open>2^1024\<close>.\<close>

lemma toNumber_shift:
  assumes "c < 2 ^ 53"
  shows "toNumber (c * 2 ^ n) = (if c * 2 ^ n < 2 ^ 1024 then Num (int (c * 2 ^ n)) else Infinity)"
proof (cases "c * 2 ^ n < 2 ^ 53")
  case True
  moreover have "(2::nat) ^ 53 \<le> 2 ^ 1024" by (rule power_increasing) simp_all
  ultimately show ?thesis by (simp add: toNumber_def)
next
  case False
  then have c: "0 < c" by (cases "c = 0") simp_all
  define e where "e = bitLength (c * 2 ^ n) - 53"
  have "bitLength c \<le> 53" using assms by (rule bitLength_bound)
  then have en: "e \<le> n" unfolding e_def by (simp add: bitLength_shift [OF c])
  have e0: "0 < e"
  proof (rule ccontr)
    assume "\<not> 0 < e"
    then have "bitLength (c * 2 ^ n) \<le> 53" unfolding e_def by simp
    moreover from False have "53 < bitLength (c * 2 ^ n)" by (intro bitLength_lower) simp
    ultimately show False by simp
  qed
  have split: "c * 2 ^ n = (c * 2 ^ (n - e)) * 2 ^ e"
    using en by (simp add: power_add [symmetric] mult.assoc)
  have r: "(c * 2 ^ n) mod 2 ^ e = 0" by (subst split) simp
  have q: "(c * 2 ^ n) div 2 ^ e * 2 ^ e = c * 2 ^ n" using r by (simp add: mod_eq_0_iff_dvd)
  show ?thesis
    using False e0 r q unfolding toNumber_def Let_def e_def [symmetric]
    by (simp del: power_Suc)
qed

lemma pow2_less_iff: "(2::nat) ^ n < 2 ^ 1024 \<longleftrightarrow> n < 1024"
  by (rule power_strict_increasing_iff) simp

lemma toNumber_pow2: "toNumber (2 ^ n) = (if n < 1024 then Num (2 ^ n) else Infinity)"
proof -
  have "toNumber (1 * 2 ^ n) = (if (1::nat) * 2 ^ n < 2 ^ 1024 then Num (int (1 * 2 ^ n)) else Infinity)"
    by (rule toNumber_shift) simp
  then show ?thesis unfolding mult_1 pow2_less_iff by simp
qed

lemma thousand_pow2_less_iff: "(1000::nat) * 2 ^ n < 2 ^ 1024 \<longleftrightarrow> n \<le> 1014"
proof
  assume l: "(1000::nat) * 2 ^ n < 2 ^ 1024"
  show "n \<le> 1014"
  proof (rule ccontr)
    assume "\<not> n \<le> 1014"
    then have "(2::nat) ^ 1015 \<le> 2 ^ n" by (intro power_increasing) simp_all
    then have "(2::nat) ^ 9 * 2 ^ 1015 \<le> 1000 * 2 ^ n" by (intro mult_le_mono) simp_all
    then have "(2::nat) ^ (9 + 1015) \<le> 1000 * 2 ^ n" by (simp only: power_add)
    with l show False by simp
  qed
next
  assume "n \<le> 1014"
  then have "(2::nat) ^ n \<le> 2 ^ 1014" by (intro power_increasing) simp_all
  then have "(1000::nat) * 2 ^ n \<le> 1000 * 2 ^ 1014" by (intro mult_le_mono) simp_all
  also have "\<dots> < 2 ^ 10 * 2 ^ 1014" by (intro mult_strict_right_mono) simp_all
  also have "\<dots> = 2 ^ (10 + 1014)" by (simp only: power_add)
  finally show "(1000::nat) * 2 ^ n < 2 ^ 1024" by simp
qed

text \<open>The delay before retry \<open>n\<close>: a thousand times \<open>2^n\<close> milliseconds up to \<open>n = 1014\<close>, and
  \<open>Infinity\<close> from \<open>n = 1015\<close> on, where the product leaves the range of the doubles.\<close>

lemma backoffDelay_value:
  "backoffDelay n = (if n \<le> 1014 then Num (1000 * 2 ^ n) else Infinity)"
proof -
  have t: "toNumber (1000 * 2 ^ n) = (if n \<le> 1014 then Num (int (1000 * 2 ^ n)) else Infinity)"
    unfolding thousand_pow2_less_iff [symmetric] by (rule toNumber_shift) simp
  show ?thesis
  proof (cases "n < 1024")
    case True
    then have "backoffDelay n = toNumber (2 ^ n * 1000)"
      by (simp add: backoffDelay_def timesNumber_def toNumber_pow2 nat_power_eq)
    also have "2 ^ n * 1000 = (1000::nat) * 2 ^ n" by (rule mult.commute)
    finally show ?thesis using t by simp
  next
    case False
    then show ?thesis by (simp add: backoffDelay_def timesNumber_def toNumber_pow2)
  qed
qed

subsection \<open>The pattern for the power state\<close>

lemma matchPowerStateAt_iff:
  "matchPowerStateAt s = Some ds \<longleftrightarrow>
     ds \<noteq> [] \<and> list_all isDigitChar ds \<and>
     (\<exists>rest. s = ''<r:PowerState>'' @ ds @ ''</r:PowerState>'' @ rest)"
proof
  assume "matchPowerStateAt s = Some ds"
  then obtain r rest where r: "stripPrefix ''<r:PowerState>'' s = Some r"
    and ds: "ds = takeWhile isDigitChar r" "ds \<noteq> []"
    and rest: "stripPrefix ''</r:PowerState>'' (dropWhile isDigitChar r) = Some rest"
    by (auto simp: matchPowerStateAt_def Let_def split: option.splits if_splits)
  have "r = ds @ dropWhile isDigitChar r" using ds by simp
  also have "dropWhile isDigitChar r = ''</r:PowerState>'' @ rest"
    using rest by (simp only: stripPrefix_iff)
  finally have "s = ''<r:PowerState>'' @ ds @ ''</r:PowerState>'' @ rest"
    using r by (simp only: stripPrefix_iff)
  moreover have "list_all isDigitChar ds"
    unfolding ds list_all_iff by (auto dest: set_takeWhileD)
  ultimately show "ds \<noteq> [] \<and> list_all isDigitChar ds \<and>
     (\<exists>rest. s = ''<r:PowerState>'' @ ds @ ''</r:PowerState>'' @ rest)"
    using ds by blast
next
  assume "ds \<noteq> [] \<and> list_all isDigitChar ds \<and>
     (\<exists>rest. s = ''<r:PowerState>'' @ ds @ ''</r:PowerState>'' @ rest)"
  then obtain rest where ne: "ds \<noteq> []" and dig: "\<forall>c\<in>set ds. isDigitChar c"
    and s: "s = ''<r:PowerState>'' @ ds @ ''</r:PowerState>'' @ rest"
    by (auto simp: list_all_iff)
  have r: "stripPrefix ''<r:PowerState>'' s = Some (ds @ ''</r:PowerState>'' @ rest)"
    unfolding stripPrefix_iff s by simp
  have nd: "\<not> isDigitChar CHR ''<''" by (simp add: isDigitChar_def)
  have tw: "takeWhile isDigitChar (ds @ ''</r:PowerState>'' @ rest) = ds"
    and dw: "dropWhile isDigitChar (ds @ ''</r:PowerState>'' @ rest) = ''</r:PowerState>'' @ rest"
    using run_then_stop [OF dig nd, of "''/r:PowerState>'' @ rest"] by simp_all
  have cl: "stripPrefix ''</r:PowerState>'' (''</r:PowerState>'' @ rest) = Some rest"
    unfolding stripPrefix_iff by simp
  show "matchPowerStateAt s = Some ds"
    by (simp only: matchPowerStateAt_def r option.case Let_def tw dw ne if_False cl)
qed

lemma matchPowerState_leftmost:
  "matchPowerState t = Some ds \<longleftrightarrow>
     (\<exists>i\<le>length t. matchPowerStateAt (drop i t) = Some ds \<and>
        (\<forall>j<i. matchPowerStateAt (drop j t) = None))"
proof (induction t)
  case Nil
  show ?case by (simp add: matchPowerStateAt_def)
next
  case (Cons c cs)
  show ?case
  proof (cases "matchPowerStateAt (c # cs)")
    case (Some d)
    have "(\<exists>i\<le>length (c # cs). matchPowerStateAt (drop i (c # cs)) = Some ds \<and>
        (\<forall>j<i. matchPowerStateAt (drop j (c # cs)) = None)) \<longleftrightarrow> d = ds"
    proof
      assume "\<exists>i\<le>length (c # cs). matchPowerStateAt (drop i (c # cs)) = Some ds \<and>
        (\<forall>j<i. matchPowerStateAt (drop j (c # cs)) = None)"
      then obtain i where i: "matchPowerStateAt (drop i (c # cs)) = Some ds"
        "\<forall>j<i. matchPowerStateAt (drop j (c # cs)) = None" by blast
      have "i = 0"
      proof (rule ccontr)
        assume "i \<noteq> 0"
        then have "matchPowerStateAt (drop 0 (c # cs)) = None" using i(2) by blast
        with Some show False by simp
      qed
      with i(1) Some show "d = ds" by simp
    next
      assume "d = ds"
      with Some have "matchPowerStateAt (drop 0 (c # cs)) = Some ds \<and>
        (\<forall>j<0. matchPowerStateAt (drop j (c # cs)) = None)" by simp
      then show "\<exists>i\<le>length (c # cs). matchPowerStateAt (drop i (c # cs)) = Some ds \<and>
        (\<forall>j<i. matchPowerStateAt (drop j (c # cs)) = None)" by blast
    qed
    with Some show ?thesis by simp
  next
    case None
    have "(\<exists>i\<le>length (c # cs). matchPowerStateAt (drop i (c # cs)) = Some ds \<and>
        (\<forall>j<i. matchPowerStateAt (drop j (c # cs)) = None)) \<longleftrightarrow>
      (\<exists>i\<le>length cs. matchPowerStateAt (drop i cs) = Some ds \<and>
        (\<forall>j<i. matchPowerStateAt (drop j cs) = None))" (is "?L \<longleftrightarrow> ?R")
    proof
      assume ?L
      then obtain i where i: "i \<le> length (c # cs)" "matchPowerStateAt (drop i (c # cs)) = Some ds"
        "\<forall>j<i. matchPowerStateAt (drop j (c # cs)) = None" by blast
      from i(2) None obtain k where k: "i = Suc k" by (cases i) auto
      have "\<forall>j<k. matchPowerStateAt (drop j cs) = None"
      proof (intro allI impI)
        fix j assume "j < k"
        then have "Suc j < i" using k by simp
        with i(3) have "matchPowerStateAt (drop (Suc j) (c # cs)) = None" by blast
        then show "matchPowerStateAt (drop j cs) = None" by simp
      qed
      with i(1,2) k show ?R by auto
    next
      assume ?R
      then obtain k where k: "k \<le> length cs" "matchPowerStateAt (drop k cs) = Some ds"
        "\<forall>j<k. matchPowerStateAt (drop j cs) = None" by blast
      have "\<forall>j<Suc k. matchPowerStateAt (drop j (c # cs)) = None"
      proof (intro allI impI)
        fix j assume j: "j < Suc k"
        show "matchPowerStateAt (drop j (c # cs)) = None"
        proof (cases j)
          case 0
          with None show ?thesis by simp
        next
          case (Suc j')
          with j k(3) show ?thesis by simp
        qed
      qed
      with k(1,2) have "Suc k \<le> length (c # cs) \<and> matchPowerStateAt (drop (Suc k) (c # cs)) = Some ds \<and>
        (\<forall>j<Suc k. matchPowerStateAt (drop j (c # cs)) = None)" by simp
      then show ?L by blast
    qed
    with None Cons.IH show ?thesis by simp
  qed
qed

lemma powerStateElementAt_match:
  "powerStateElementAt t i ds \<longleftrightarrow> i \<le> length t \<and> matchPowerStateAt (drop i t) = Some ds"
  unfolding powerStateElementAt_def matchPowerStateAt_iff by blast

lemma matchPowerState_first:
  assumes "powerStateElementAt t i ds"
    and "\<forall>j<i. \<forall>ds'. \<not> powerStateElementAt t j ds'"
  shows "matchPowerState t = Some ds"
proof -
  from assms(1) have i: "i \<le> length t" "matchPowerStateAt (drop i t) = Some ds"
    by (simp_all add: powerStateElementAt_match)
  have "\<forall>j<i. matchPowerStateAt (drop j t) = None"
  proof (intro allI impI)
    fix j assume j: "j < i"
    with assms(2) i(1) have "\<forall>ds'. matchPowerStateAt (drop j t) \<noteq> Some ds'"
      by (simp add: powerStateElementAt_match)
    then show "matchPowerStateAt (drop j t) = None" by (cases "matchPowerStateAt (drop j t)") auto
  qed
  with i show ?thesis unfolding matchPowerState_leftmost by blast
qed

lemma matchPowerState_none:
  assumes "\<forall>i ds. \<not> powerStateElementAt t i ds"
  shows "matchPowerState t = None"
proof (cases "matchPowerState t")
  case None
  then show ?thesis .
next
  case (Some ds)
  then obtain i where "i \<le> length t" "matchPowerStateAt (drop i t) = Some ds"
    unfolding matchPowerState_leftmost by blast
  then have "powerStateElementAt t i ds" by (simp add: powerStateElementAt_match)
  with assms show ?thesis by blast
qed

lemma no_element_iff:
  "matchPowerState t = None \<longleftrightarrow> (\<forall>i ds. \<not> powerStateElementAt t i ds)"
proof
  assume none: "matchPowerState t = None"
  show "\<forall>i ds. \<not> powerStateElementAt t i ds"
  proof (rule ccontr)
    assume "\<not> (\<forall>i ds. \<not> powerStateElementAt t i ds)"
    then have "\<exists>i. \<exists>ds. powerStateElementAt t i ds" by blast
    then obtain i where i: "\<exists>ds. powerStateElementAt t i ds"
      and least: "\<forall>j<i. \<not> (\<exists>ds. powerStateElementAt t j ds)"
      unfolding exists_least_iff [of "\<lambda>i. \<exists>ds. powerStateElementAt t i ds"] by blast
    from i obtain ds where "powerStateElementAt t i ds" by blast
    moreover from least have "\<forall>j<i. \<forall>ds'. \<not> powerStateElementAt t j ds'" by blast
    ultimately have "matchPowerState t = Some ds" by (rule matchPowerState_first)
    with none show False by simp
  qed
next
  assume "\<forall>i ds. \<not> powerStateElementAt t i ds"
  then show "matchPowerState t = None" by (rule matchPowerState_none)
qed

lemma powerStateElementAt_sublist:
  assumes "powerStateElementAt t i ds"
  shows "sublist ''<r:PowerState>'' t"
proof -
  from assms obtain rest where "drop i t = ''<r:PowerState>'' @ ds @ ''</r:PowerState>'' @ rest"
    by (auto simp: powerStateElementAt_def)
  then have "t = take i t @ ''<r:PowerState>'' @ (ds @ ''</r:PowerState>'' @ rest)"
    by (metis append_take_drop_id)
  then show ?thesis unfolding sublist_def by blast
qed

lemma bitLength_2_53: "bitLength 9007199254740992 = 54"
  by (simp add: bitLength.simps)

lemma toNumber_exact: "n \<le> 2 ^ 53 \<Longrightarrow> toNumber n = Num (int n)"
proof (cases "n < 2 ^ 53")
  case True
  then show ?thesis by (simp add: toNumber_def)
next
  case False
  assume "n \<le> 2 ^ 53"
  with False have n: "n = 2 ^ 53" by simp
  show ?thesis unfolding n by (simp add: toNumber_def bitLength_2_53 Let_def)
qed

lemma powerStateOf_first:
  assumes "powerStateElementAt t i ds" and "\<forall>j<i. \<forall>ds'. \<not> powerStateElementAt t j ds'"
  shows "powerStateOf t = toNumber (decimalValue ds)"
  by (simp add: powerStateOf_def matchPowerState_first [OF assms] parseInt10_def)

lemma powerStateOf_none:
  assumes "\<forall>i ds. \<not> powerStateElementAt t i ds"
  shows "powerStateOf t = Num (- 1)"
  by (simp add: powerStateOf_def matchPowerState_none [OF assms])

subsection \<open>The pattern for the challenge\<close>

lemma matchPairAt_iff:
  \<open>matchPairAt s = Some (k, v, rest) \<longleftrightarrow>
     k \<noteq> [] \<and> list_all isWordChar k \<and> v \<noteq> [] \<and> list_all notQuote v \<and>
     s = k @ ''="'' @ v @ ''"'' @ rest\<close>
proof
  assume m: "matchPairAt s = Some (k, v, rest)"
  then have k: "k = takeWhile isWordChar s" "k \<noteq> []"
    by (auto simp: matchPairAt_def Let_def split: if_splits option.splits list.splits)
  from m obtain r where r: \<open>stripPrefix ''="'' (dropWhile isWordChar s) = Some r\<close>
    by (auto simp: matchPairAt_def Let_def split: if_splits option.splits list.splits)
  with m k have v: "v = takeWhile notQuote r" "v \<noteq> []"
    by (auto simp: matchPairAt_def Let_def split: if_splits option.splits list.splits)
  from m r v obtain q where q: "dropWhile notQuote r = q # rest"
    by (auto simp: matchPairAt_def Let_def split: if_splits option.splits list.splits)
  have "\<not> notQuote q" using q by (metis hd_dropWhile list.distinct(1) list.sel(1))
  then have qq: \<open>q = CHR ''"''\<close> by (simp add: notQuote_def)
  have "s = k @ dropWhile isWordChar s" using k by simp
  also have \<open>dropWhile isWordChar s = ''="'' @ r\<close> using r by (simp only: stripPrefix_iff)
  also have "r = v @ dropWhile notQuote r" using v by simp
  finally have \<open>s = k @ ''="'' @ v @ ''"'' @ rest\<close> using q qq by simp
  moreover have "list_all isWordChar k" unfolding k list_all_iff by (auto dest: set_takeWhileD)
  moreover have "list_all notQuote v" unfolding v list_all_iff by (auto dest: set_takeWhileD)
  ultimately show \<open>k \<noteq> [] \<and> list_all isWordChar k \<and> v \<noteq> [] \<and> list_all notQuote v \<and>
     s = k @ ''="'' @ v @ ''"'' @ rest\<close> using k v by blast
next
  assume \<open>k \<noteq> [] \<and> list_all isWordChar k \<and> v \<noteq> [] \<and> list_all notQuote v \<and>
     s = k @ ''="'' @ v @ ''"'' @ rest\<close>
  then have k: "k \<noteq> []" "\<forall>c\<in>set k. isWordChar c" and v: "v \<noteq> []" "\<forall>c\<in>set v. notQuote c"
    and s: \<open>s = k @ ''="'' @ v @ ''"'' @ rest\<close>
    by (auto simp: list_all_iff)
  have nw: "\<not> isWordChar CHR ''=''" by (simp add: isWordChar_def)
  have nq: \<open>\<not> notQuote CHR ''"''\<close> by (simp add: notQuote_def)
  have tw: \<open>takeWhile isWordChar s = k\<close>
    and dw: \<open>dropWhile isWordChar s = ''="'' @ v @ ''"'' @ rest\<close>
    unfolding s using run_then_stop [OF k(2) nw, of \<open>CHR ''"'' # v @ ''"'' @ rest\<close>] by simp_all
  have sp: \<open>stripPrefix ''="'' (''="'' @ v @ ''"'' @ rest) = Some (v @ ''"'' @ rest)\<close>
    unfolding stripPrefix_iff by simp
  have tv: \<open>takeWhile notQuote (v @ ''"'' @ rest) = v\<close>
    and dv: \<open>dropWhile notQuote (v @ ''"'' @ rest) = CHR ''"'' # rest\<close>
    using run_then_stop [OF v(2) nq, of rest] by simp_all
  show "matchPairAt s = Some (k, v, rest)"
    by (simp only: matchPairAt_def tw dw sp tv dv Let_def k(1) v(1) if_False option.case list.case)
qed

lemma captured_values_nonempty: "(k, v) \<in> set (captures s) \<Longrightarrow> k \<noteq> [] \<and> v \<noteq> []"
proof (induction s arbitrary: k v rule: captures.induct)
  case (1 s)
  show ?case
  proof (cases "execPair s")
    case None
    with "1.prems" show ?thesis by (simp add: captures.simps [of s])
  next
    case (Some m)
    obtain k' v' rest where m: "m = (k', v', rest)" by (cases m)
    have "matchesSome": "\<exists>t. matchPairAt t = Some (k', v', rest)"
      using Some m
    proof (induction s)
      case Nil
      then show ?case by simp
    next
      case (Cons c cs)
      then show ?case by (cases "matchPairAt (c # cs)") auto
    qed
    then have ne: "k' \<noteq> [] \<and> v' \<noteq> []" by (auto simp: matchPairAt_iff)
    from "1.prems" Some m have "(k, v) = (k', v') \<or> (k, v) \<in> set (captures rest)"
      by (simp add: captures.simps [of s])
    then show ?thesis
    proof
      assume "(k, v) = (k', v')"
      with ne show ?thesis by simp
    next
      assume "(k, v) \<in> set (captures rest)"
      from "1.IH" [OF Some _ _ this] m show ?thesis by simp
    qed
  qed
qed

lemma scanLoop_captures:
  "scanLoop s p = foldl (\<lambda>q kv. assign q (fst kv) (snd kv)) p (captures s)"
proof (induction s p rule: scanLoop.induct)
  case (1 s p)
  show ?case
  proof (cases "execPair s")
    case None
    then show ?thesis by (simp add: scanLoop.simps [of s] captures.simps [of s])
  next
    case (Some m)
    obtain k v rest where m: "m = (k, v, rest)" by (cases m)
    from "1.IH" [OF Some _ _] m Some show ?thesis
      by (simp add: scanLoop.simps [of s] captures.simps [of s])
  qed
qed

lemma assigned_realm:
  "realm (foldl (\<lambda>q kv. assign q (fst kv) (snd kv)) p kvs) =
     (case map_of (rev kvs) ''realm'' of None \<Rightarrow> realm p | Some v \<Rightarrow> v)"
  by (induction kvs rule: rev_induct) (auto simp: assign_def)

lemma assigned_nonce:
  "nonce (foldl (\<lambda>q kv. assign q (fst kv) (snd kv)) p kvs) =
     (case map_of (rev kvs) ''nonce'' of None \<Rightarrow> nonce p | Some v \<Rightarrow> v)"
  by (induction kvs rule: rev_induct) (auto simp: assign_def)

lemma captured_nonempty: "captured h k = Some v \<Longrightarrow> v \<noteq> []"
proof -
  assume "captured h k = Some v"
  then have "(k, v) \<in> set (rev (captures h))" unfolding captured_def by (rule map_of_SomeD)
  then show ?thesis using captured_values_nonempty [of k v h] by simp
qed

text \<open>The pattern on a challenge in the standard syntax.\<close>

lemma execPair_skip_nonword:
  assumes "\<not> isWordChar c"
  shows "execPair (c # s) = execPair s"
proof -
  have "takeWhile isWordChar (c # s) = []" using assms by simp
  then have "matchPairAt (c # s) = None" by (simp add: matchPairAt_def)
  then show ?thesis by simp
qed

lemma execPair_skip_word:
  assumes "list_all isWordChar ws" and "\<not> isWordChar c" and "c \<noteq> CHR ''=''"
  shows "execPair (ws @ c # s) = execPair s"
  using assms(1)
proof (induction ws)
  case Nil
  show ?case by (simp only: append_Nil execPair_skip_nonword [OF assms(2)])
next
  case (Cons x xs)
  then have w: "\<forall>a\<in>set (x # xs). isWordChar a" by (simp add: list_all_iff)
  have tw: "takeWhile isWordChar ((x # xs) @ c # s) = x # xs"
    and dw: "dropWhile isWordChar ((x # xs) @ c # s) = c # s"
    using run_then_stop [OF w assms(2)] by blast+
  have "matchPairAt ((x # xs) @ c # s) = None"
    unfolding matchPairAt_def tw dw using assms(3) by simp
  then have "execPair ((x # xs) @ c # s) = execPair (xs @ c # s)" by simp
  with Cons show ?case by simp
qed

lemma execPair_pair:
  assumes "wellFormedPair (k, v)"
  shows \<open>execPair (k @ ''="'' @ v @ ''"'' @ rest) = Some (k, v, rest)\<close>
proof -
  from assms have m: \<open>matchPairAt (k @ ''="'' @ v @ ''"'' @ rest) = Some (k, v, rest)\<close>
    unfolding matchPairAt_iff by (simp add: wellFormedPair_def)
  from assms obtain c cs where "k = c # cs" by (cases k) (auto simp: wellFormedPair_def)
  with m show ?thesis by simp
qed

lemma captures_Nil: "captures [] = []"
  by (simp add: captures.simps)

lemma captures_cong: "execPair s = execPair t \<Longrightarrow> captures s = captures t"
  by (simp only: captures.simps [of s] captures.simps [of t])

lemma captures_separator: "captures ('', '' @ s) = captures s"
proof -
  have a: "\<not> isWordChar CHR '',''" and b: "\<not> isWordChar CHR '' ''"
    by (simp_all add: isWordChar_def)
  have "execPair (CHR '','' # CHR '' '' # s) = execPair s"
    by (simp only: execPair_skip_nonword [OF a] execPair_skip_nonword [OF b])
  then have "execPair ('', '' @ s) = execPair s" by simp
  then show ?thesis by (rule captures_cong)
qed

lemma captures_scheme: "captures (''Digest '' @ s) = captures s"
proof -
  have "execPair (''Digest'' @ CHR '' '' # s) = execPair s"
    by (rule execPair_skip_word) (simp_all add: isWordChar_def)
  then have "execPair (''Digest '' @ s) = execPair s" by simp
  then show ?thesis by (rule captures_cong)
qed

lemma captures_pair:
  assumes "wellFormedPair kv"
  shows "captures (renderPair kv @ rest) = kv # captures rest"
proof -
  obtain k v where kv: "kv = (k, v)" by (cases kv)
  with assms have "wellFormedPair (k, v)" by simp
  from execPair_pair [OF this, of rest]
  have "execPair (renderPair kv @ rest) = Some (k, v, rest)"
    by (simp add: kv renderPair_def)
  then show ?thesis by (simp add: captures.simps [of "renderPair (k, v) @ rest"] kv)
qed

lemma captures_renderPairs: "list_all wellFormedPair kvs \<Longrightarrow> captures (renderPairs kvs) = kvs"
proof (induction kvs rule: renderPairs.induct)
  case 1
  show ?case by (simp add: captures_Nil)
next
  case (2 kv)
  then have "wellFormedPair kv" by simp
  from captures_pair [OF this, of "[]"] show ?case by (simp add: captures_Nil)
next
  case (3 kv kv' kvs)
  then have "wellFormedPair kv" by simp
  from captures_pair [OF this, of "'', '' @ renderPairs (kv' # kvs)"]
  have "captures (renderPairs (kv # kv' # kvs)) = kv # captures ('', '' @ renderPairs (kv' # kvs))"
    by simp
  with 3 show ?case by (simp only: captures_separator) simp
qed

lemma captured_standard_syntax:
  "list_all wellFormedPair kvs \<Longrightarrow> captured (''Digest '' @ renderPairs kvs) k = map_of (rev kvs) k"
  by (simp only: captured_def captures_scheme captures_renderPairs)

lemma parseAuthHeader_captured:
  "(captured h ''realm'' = None \<or> captured h ''nonce'' = None \<longrightarrow>
      parseAuthHeader h = Inl (newError ''Missing required digest authentication parameters'')) \<and>
   (captured h ''realm'' = Some r \<and> captured h ''nonce'' = Some n \<longrightarrow>
      (\<exists>p. parseAuthHeader h = Inr p \<and> realm p = r \<and> nonce p = n)) \<and>
   (parseAuthHeader h = Inr p \<longrightarrow>
      realm p \<noteq> [] \<and> nonce p \<noteq> [] \<and>
      captured h ''realm'' = Some (realm p) \<and> captured h ''nonce'' = Some (nonce p))"
proof -
  let ?p = "scanLoop h \<lparr>realm = [], nonce = [], extra = Map.empty\<rparr>"
  have rl: "realm ?p = (case captured h ''realm'' of None \<Rightarrow> [] | Some v \<Rightarrow> v)"
    by (simp add: scanLoop_captures assigned_realm captured_def split: option.splits)
  have nn: "nonce ?p = (case captured h ''nonce'' of None \<Rightarrow> [] | Some v \<Rightarrow> v)"
    by (simp add: scanLoop_captures assigned_nonce captured_def split: option.splits)
  show ?thesis
  proof (intro conjI impI)
    assume "captured h ''realm'' = None \<or> captured h ''nonce'' = None"
    then have "realm ?p = [] \<or> nonce ?p = []" using rl nn by auto
    then show "parseAuthHeader h = Inl (newError ''Missing required digest authentication parameters'')"
      by (auto simp: parseAuthHeader_def Let_def)
  next
    assume a: "captured h ''realm'' = Some r \<and> captured h ''nonce'' = Some n"
    then have "r \<noteq> []" "n \<noteq> []" by (auto dest: captured_nonempty)
    with a rl nn have "realm ?p = r" "nonce ?p = n" "realm ?p \<noteq> []" "nonce ?p \<noteq> []" by simp_all
    then show "\<exists>p. parseAuthHeader h = Inr p \<and> realm p = r \<and> nonce p = n"
      by (simp add: parseAuthHeader_def Let_def)
  next
    assume a: "parseAuthHeader h = Inr p"
    then have p: "p = ?p" "realm ?p \<noteq> []" "nonce ?p \<noteq> []"
      by (auto simp: parseAuthHeader_def Let_def split: if_splits)
    then show "realm p \<noteq> []" "nonce p \<noteq> []" by simp_all
    from p(2) rl show "captured h ''realm'' = Some (realm p)"
      unfolding p(1) by (cases "captured h ''realm''") simp_all
    from p(3) nn show "captured h ''nonce'' = Some (nonce p)"
      unfolding p(1) by (cases "captured h ''nonce''") simp_all
  qed
qed

subsection \<open>Counters and traces\<close>

lemma steps_append: "steps (xs @ ys) = steps xs @ steps ys"
  by (simp add: steps_def map_filter_def)

lemma steps_Nil: "steps [] = []"
  by (simp add: steps_def)

lemma steps_Cons:
  "steps (e # es) = (case stepOf e of None \<Rightarrow> steps es | Some s \<Rightarrow> s # steps es)"
  by (simp add: steps_def map_filter_def split: option.splits)

lemma emit_simps:
  "trace (emit e io) = trace io @ [e]"
  "randomCount (emit e io) = randomCount io"
  "uuidCount (emit e io) = uuidCount io"
  "lookupCount (emit e io) = lookupCount io"
  "challengeCount (emit e io) = challengeCount io"
  "requestCount (emit e io) = requestCount io"
  by (simp_all add: emit_def)

lemma fetched_simps:
  "trace (fetched req io) = trace io @ [RequestFetch req]"
  "lookupCount (fetched req io) = lookupCount io"
  "requestCount (fetched req io) = requestCount io + 1"
  by (simp_all add: fetched_def emit_simps)

lemma digestAttempt_frame:
  assumes "digestAttempt w u un pw me hs io = (r, io')"
  shows "lookupCount io' = lookupCount io" and "requestCount io' = requestCount io"
    and "uuidCount io' = uuidCount io" and "challengeCount io' = challengeCount io + 1"
    and "steps (trace io') = steps (trace io)"
  using assms
  by (auto simp: digestAttempt_def constructDigestAuthHeader_def Let_def emit_simps
        steps_append steps_Cons steps_Nil split: sum.splits if_splits)

lemma getDigestHeader_frame:
  "getDigestHeader w options io = (h, io') \<Longrightarrow>
     lookupCount io' = lookupCount io \<and> requestCount io' = requestCount io \<and>
     uuidCount io' = uuidCount io \<and> steps (trace io') = steps (trace io)"
proof (induction w options io arbitrary: h io' rule: getDigestHeader.induct)
  case (1 w options io)
  obtain r io1 where att: "digestAttempt w (url options) (DigestOptions.username options)
      (DigestOptions.password options) (optMethod options) (optHeaders options) io = (r, io1)"
    by (cases "digestAttempt w (url options) (DigestOptions.username options)
      (DigestOptions.password options) (optMethod options) (optHeaders options) io")
  note fr = digestAttempt_frame [OF att]
  show ?case
  proof (cases r)
    case (Inr dh)
    with att "1.prems" have "io' = io1" by (simp add: getDigestHeader.simps)
    with fr show ?thesis by simp
  next
    case (Inl err)
    show ?thesis
    proof (cases "int (optRetryCount options) < optMaxRetries options")
      case True
      let ?io2 = "emit (ChallengeWait (backoffDelay (optRetryCount options))) io1"
      from att Inl True "1.prems"
      have "getDigestHeader w (options\<lparr>retryCount := Some (optRetryCount options + 1)\<rparr>) ?io2 = (h, io')"
        by (simp add: getDigestHeader.simps [of w options io])
      from "1.IH" [OF att [symmetric] Inl True this]
      show ?thesis using fr by (simp add: emit_simps steps_append steps_Cons steps_Nil)
    next
      case False
      with att Inl "1.prems" have "io' = io1" by (simp add: getDigestHeader.simps [of w options io])
      with fr show ?thesis by simp
    qed
  qed
qed

lemma digestAttempt_trace:
  assumes "digestAttempt w u un pw me hs io = (r, io')"
  shows "prefix (trace io) (trace io')"
  using assms
  by (auto simp: digestAttempt_def constructDigestAuthHeader_def Let_def emit_simps
        split: sum.splits if_splits)

lemma getDigestHeader_trace:
  "getDigestHeader w options io = (h, io') \<Longrightarrow> prefix (trace io) (trace io')"
proof (induction w options io arbitrary: h io' rule: getDigestHeader.induct)
  case (1 w options io)
  obtain r io1 where att: "digestAttempt w (url options) (DigestOptions.username options)
      (DigestOptions.password options) (optMethod options) (optHeaders options) io = (r, io1)"
    by (cases "digestAttempt w (url options) (DigestOptions.username options)
      (DigestOptions.password options) (optMethod options) (optHeaders options) io")
  note p1 = digestAttempt_trace [OF att]
  show ?case
  proof (cases r)
    case (Inr dh)
    with att "1.prems" have "io' = io1" by (simp add: getDigestHeader.simps)
    with p1 show ?thesis by simp
  next
    case (Inl err)
    show ?thesis
    proof (cases "int (optRetryCount options) < optMaxRetries options")
      case True
      let ?io2 = "emit (ChallengeWait (backoffDelay (optRetryCount options))) io1"
      from att Inl True "1.prems"
      have "getDigestHeader w (options\<lparr>retryCount := Some (optRetryCount options + 1)\<rparr>) ?io2 = (h, io')"
        by (simp add: getDigestHeader.simps [of w options io])
      from "1.IH" [OF att [symmetric] Inl True this]
      have "prefix (trace ?io2) (trace io')" .
      moreover have "prefix (trace io1) (trace ?io2)" by (simp add: emit_simps)
      ultimately show ?thesis using p1 by (meson prefix_order.trans)
    next
      case False
      with att Inl "1.prems" have "io' = io1" by (simp add: getDigestHeader.simps [of w options io])
      with p1 show ?thesis by simp
    qed
  qed
qed

lemma resolveHost_trace:
  "resolveHost w m io = (r, m', io') \<Longrightarrow> prefix (trace io) (trace io')"
  by (auto simp: resolveHost_def Let_def emit_simps split: sum.splits)

subsection \<open>The probes of getDigestHeader\<close>

lemma opt_retry_simps:
  "optRetryCount (options\<lparr>retryCount := Some k\<rparr>) = k"
  "optMaxRetries (options\<lparr>retryCount := x\<rparr>) = optMaxRetries options"
  "optMethod (options\<lparr>retryCount := x\<rparr>) = optMethod options"
  "optHeaders (options\<lparr>retryCount := x\<rparr>) = optHeaders options"
  "probe (options\<lparr>retryCount := x\<rparr>) = probe options"
  by (simp_all add: optRetryCount_def optMaxRetries_def optMethod_def optHeaders_def probe_def)

lemma probeRounds_0: "probeRounds options 0 = []"
  by (simp add: probeRounds_def)

lemma probeRounds_Suc:
  "probeRounds options (Suc J) =
     [probe options, ChallengeWait (backoffDelay (optRetryCount options))] @
     probeRounds (options\<lparr>retryCount := Some (optRetryCount options + 1)\<rparr>) J"
proof -
  have "[0..<Suc J] = 0 # map Suc [0..<J]"
    by (simp add: upt_conv_Cons map_Suc_upt del: upt_Suc)
  then show ?thesis by (simp add: probeRounds_def comp_def opt_retry_simps del: upt_Suc)
qed

lemma digestAttempt_fail:
  assumes "challengeFails w (challengeCount io)"
  shows "\<exists>e. digestAttempt w u un pw me hs io =
           (Inl e, emit (ChallengeFetch u me (probeHeaders hs)) (io\<lparr>challengeCount := challengeCount io + 1\<rparr>))"
  using assms
  by (auto simp: challengeFails_def digestAttempt_def Let_def isl_def split: sum.splits option.splits)

lemma digestAttempt_ok:
  assumes "challengeFetch w (challengeCount io) = Inr (Some c)" and "c \<noteq> []"
    and "parseAuthHeader c = Inr p"
  shows "digestAttempt w u un pw me hs io =
           (Inr (fst (constructDigestAuthHeader w p
                   \<lparr>url = u, DigestOptions.username = un, DigestOptions.password = pw,
                    httpMethod = Some me, headers = None\<rparr> io)),
            emit (ChallengeFetch u me (probeHeaders hs))
              (io\<lparr>challengeCount := challengeCount io + 1, randomCount := randomCount io + 1\<rparr>))"
  using assms
  by (simp add: digestAttempt_def Let_def constructDigestAuthHeader_def emit_def)

lemma getDigestHeader_exhausted:
  assumes "\<forall>i\<le>K. challengeFails w (challengeCount io + i)"
    and "K = nat (optMaxRetries options - int (optRetryCount options))"
  shows "\<exists>io'. getDigestHeader w options io = (None, io') \<and>
           challengeCount io' = challengeCount io + K + 1 \<and> randomCount io' = randomCount io \<and>
           trace io' = trace io @ probeRounds options K @ [probe options]"
  using assms
proof (induction K arbitrary: options io)
  case 0
  then have f: "challengeFails w (challengeCount io)" by simp
  from digestAttempt_fail [OF f] obtain e where
    a: "digestAttempt w (url options) (DigestOptions.username options) (DigestOptions.password options)
          (optMethod options) (optHeaders options) io =
        (Inl e, emit (probe options) (io\<lparr>challengeCount := challengeCount io + 1\<rparr>))"
    unfolding probe_def by blast
  from 0(2) have "\<not> int (optRetryCount options) < optMaxRetries options" by simp
  with a show ?case
    by (subst getDigestHeader.simps) (simp add: emit_simps probeRounds_0)
next
  case (Suc K)
  then have f: "challengeFails w (challengeCount io)" by force
  from digestAttempt_fail [OF f] obtain e where
    a: "digestAttempt w (url options) (DigestOptions.username options) (DigestOptions.password options)
          (optMethod options) (optHeaders options) io =
        (Inl e, emit (probe options) (io\<lparr>challengeCount := challengeCount io + 1\<rparr>))"
    unfolding probe_def by blast
  let ?io1 = "emit (probe options) (io\<lparr>challengeCount := challengeCount io + 1\<rparr>)"
  let ?io2 = "emit (ChallengeWait (backoffDelay (optRetryCount options))) ?io1"
  let ?o = "options\<lparr>retryCount := Some (optRetryCount options + 1)\<rparr>"
  from Suc.prems(2) have lt: "int (optRetryCount options) < optMaxRetries options" by simp
  have step: "getDigestHeader w options io = getDigestHeader w ?o ?io2"
    using a lt by (subst getDigestHeader.simps) simp
  have p1: "\<forall>i\<le>K. challengeFails w (challengeCount ?io2 + i)"
  proof (intro allI impI)
    fix i assume "i \<le> K"
    then have "Suc i \<le> Suc K" by simp
    with Suc.prems(1) have "challengeFails w (challengeCount io + Suc i)" by blast
    then show "challengeFails w (challengeCount ?io2 + i)" by (simp add: emit_simps)
  qed
  have p2: "K = nat (optMaxRetries ?o - int (optRetryCount ?o))"
    using Suc.prems(2) by (simp add: opt_retry_simps)
  from Suc.IH [OF p1 p2] obtain io' where
    "getDigestHeader w ?o ?io2 = (None, io')"
    "challengeCount io' = challengeCount ?io2 + K + 1" "randomCount io' = randomCount ?io2"
    "trace io' = trace ?io2 @ probeRounds ?o K @ [probe ?o]" by blast
  with step show ?case
    by (intro exI [of _ io']) (simp add: emit_simps probeRounds_Suc opt_retry_simps)
qed

lemma getDigestHeader_succeeds:
  assumes "\<forall>i<J. challengeFails w (challengeCount io + i)"
    and "int (optRetryCount options + J) \<le> optMaxRetries options"
    and "challengeFetch w (challengeCount io + J) = Inr (Some c)" and "c \<noteq> []"
    and "parseAuthHeader c = Inr p"
  shows "\<exists>io'. getDigestHeader w options io =
             (Some (fst (constructDigestAuthHeader w p
                     \<lparr>url = url options, DigestOptions.username = DigestOptions.username options,
                      DigestOptions.password = DigestOptions.password options,
                      httpMethod = Some (optMethod options), headers = None\<rparr> io)), io') \<and>
           challengeCount io' = challengeCount io + J + 1 \<and> randomCount io' = randomCount io + 1 \<and>
           trace io' = trace io @ probeRounds options J @ [probe options]"
  using assms
proof (induction J arbitrary: options io)
  case 0
  from 0(3) have c: "challengeFetch w (challengeCount io) = Inr (Some c)" by simp
  from digestAttempt_ok [OF c 0(4,5)] show ?case
    by (subst getDigestHeader.simps) (simp add: emit_simps probeRounds_0 probe_def)
next
  case (Suc J)
  then have f: "challengeFails w (challengeCount io)" by force
  from digestAttempt_fail [OF f] obtain e where
    a: "digestAttempt w (url options) (DigestOptions.username options) (DigestOptions.password options)
          (optMethod options) (optHeaders options) io =
        (Inl e, emit (probe options) (io\<lparr>challengeCount := challengeCount io + 1\<rparr>))"
    unfolding probe_def by blast
  let ?io1 = "emit (probe options) (io\<lparr>challengeCount := challengeCount io + 1\<rparr>)"
  let ?io2 = "emit (ChallengeWait (backoffDelay (optRetryCount options))) ?io1"
  let ?o = "options\<lparr>retryCount := Some (optRetryCount options + 1)\<rparr>"
  from Suc.prems(2) have lt: "int (optRetryCount options) < optMaxRetries options" by simp
  have step: "getDigestHeader w options io = getDigestHeader w ?o ?io2"
    using a lt by (subst getDigestHeader.simps) simp
  have p1: "\<forall>i<J. challengeFails w (challengeCount ?io2 + i)"
  proof (intro allI impI)
    fix i assume "i < J"
    then have "Suc i < Suc J" by simp
    with Suc.prems(1) have "challengeFails w (challengeCount io + Suc i)" by blast
    then show "challengeFails w (challengeCount ?io2 + i)" by (simp add: emit_simps)
  qed
  have p2: "int (optRetryCount ?o + J) \<le> optMaxRetries ?o"
    using Suc.prems(2) by (simp add: opt_retry_simps)
  have p3: "challengeFetch w (challengeCount ?io2 + J) = Inr (Some c)"
    using Suc.prems(3) by (simp add: emit_simps)
  have same: "fst (constructDigestAuthHeader w p x (emit e1 (emit e2 (io\<lparr>challengeCount := k\<rparr>)))) =
      fst (constructDigestAuthHeader w p x io)" for x :: DigestOptions and e1 e2 k
    by (simp add: constructDigestAuthHeader_def Let_def emit_simps)
  from Suc.IH [OF p1 p2 p3 Suc.prems(4,5)] obtain io' where
    "getDigestHeader w ?o ?io2 =
             (Some (fst (constructDigestAuthHeader w p
                     \<lparr>url = url ?o, DigestOptions.username = DigestOptions.username ?o,
                      DigestOptions.password = DigestOptions.password ?o,
                      httpMethod = Some (optMethod ?o), headers = None\<rparr> ?io2)), io')"
    "challengeCount io' = challengeCount ?io2 + J + 1" "randomCount io' = randomCount ?io2 + 1"
    "trace io' = trace ?io2 @ probeRounds ?o J @ [probe ?o]" by blast
  with step show ?case
    by (intro exI [of _ io']) (simp add: emit_simps probeRounds_Suc opt_retry_simps same)
qed

subsection \<open>Resolution and a single request\<close>

lemma resolveHost_ok:
  assumes "dnsLookup w (lookupCount io) = Inr a"
  shows "\<exists>m'. resolveHost w m io =
           (Inr (), m', emit (Lookup (host (config m)) (if truthy (forceIPv4 (config m)) then 4 else 0)
                          (truthy (forceIPv4 (config m)))) (io\<lparr>lookupCount := lookupCount io + 1\<rparr>)) \<and>
         resolved m' \<and> config m' = config m \<and> resolvedHost m' = a \<and>
         baseUrl m' = showProtocol (protocol (config m)) @ ''://'' @ a @ '':'' @
                        showOptInt (port (config m)) @ ''/wsman''"
  using assms by (simp add: resolveHost_def Let_def resolved_def)

lemma resolveHost_fail:
  assumes "dnsLookup w (lookupCount io) = Inl e"
  shows "resolveHost w m io =
           (Inl (newError (''Failed to resolve host '' @ host (config m) @ '': '' @ message e)), m,
            emit (Lookup (host (config m)) (if truthy (forceIPv4 (config m)) then 4 else 0)
                          (truthy (forceIPv4 (config m)))) (io\<lparr>lookupCount := lookupCount io + 1\<rparr>))"
  using assms by (simp add: resolveHost_def Let_def)

lemma requestOptions_step:
  "headerOf (requestOptions m h action body) ''SOAPAction'' = action"
  "reqBody (requestOptions m h action body) = body"
  by (simp_all add: requestOptions_def headerOf_def)

lemma sendRequest_fail:
  "requestFetch w (requestCount io) = Inl e \<Longrightarrow> sendRequest w req io = (Inl e, fetched req io)"
  by (simp add: sendRequest_def fetched_def)

lemma sendRequest_ok:
  "requestFetch w (requestCount io) = Inr response \<Longrightarrow> ok response \<Longrightarrow>
     sendRequest w req io = (Inr response, fetched req io)"
  by (simp add: sendRequest_def fetched_def)

lemma sendRequest_status:
  "requestFetch w (requestCount io) = Inr response \<Longrightarrow> \<not> ok response \<Longrightarrow>
   bodyText response = Inr responseText \<Longrightarrow>
     sendRequest w req io =
       (Inl (newError (''AMT request failed: '' @ showNat (status response) @ '' '' @
               statusText response @ [CHR 0x0A] @ ''Response: '' @ responseText)),
        fetched req io)"
  by (simp add: sendRequest_def fetched_def)

lemma newError_not_connection: "\<not> isConnectionError (newError msg)"
  by (simp add: isConnectionError_def newError_def)

subsection \<open>The request loop\<close>

lemma makeRequest_resolved:
  assumes "resolved m"
    and "getDigestHeader w (digestOptionsOf m) io = (h, io2)"
    and "sendRequest w (requestOptions m h action body) io2 = (r, io3)"
  shows "makeRequest w m io action body n =
     (case r of
        Inr response \<Rightarrow> (Inr response, m, io3)
      | Inl error \<Rightarrow>
          if isConnectionError error
          then (if retriesLeft n (retries (config m))
                then (case resolveHost w m (emit (RetryWait (backoffDelay n)) io3) of
                        (Inl e, m2, io4) \<Rightarrow> (Inl e, m2, io4)
                      | (Inr u', m2, io4) \<Rightarrow> makeRequest w m2 io4 action body (n + 1))
                else (Inl (exhaustedError m error), m, io3))
          else (Inl error, m, io3))"
proof -
  from assms(1) have un: "(baseUrl m = [] \<or> agent m = None) = False"
    by (simp add: resolved_def)
  show ?thesis
    apply (subst makeRequest.simps)
    apply (simp only: un if_False)
    apply (simp add: assms(2,3) split: sum.splits)
    done
qed

lemma makeRequest_unresolved_ok:
  assumes "\<not> resolved m" and "dnsLookup w (lookupCount io) = Inr a"
  shows "\<exists>m1 io1. makeRequest w m io action body n = makeRequest w m1 io1 action body n \<and>
           resolved m1 \<and> config m1 = config m \<and> resolvedHost m1 = a \<and>
           baseUrl m1 = showProtocol (protocol (config m)) @ ''://'' @ a @ '':'' @
                        showOptInt (port (config m)) @ ''/wsman'' \<and>
           lookupCount io1 = lookupCount io + 1 \<and> requestCount io1 = requestCount io \<and>
           challengeCount io1 = challengeCount io \<and> randomCount io1 = randomCount io \<and>
           trace io1 = trace io @ [Lookup (host (config m))
              (if truthy (forceIPv4 (config m)) then 4 else 0) (truthy (forceIPv4 (config m)))]"
proof -
  from resolveHost_ok [OF assms(2), of m] obtain m1 where
    r: "resolveHost w m io =
           (Inr (), m1, emit (Lookup (host (config m)) (if truthy (forceIPv4 (config m)) then 4 else 0)
                          (truthy (forceIPv4 (config m)))) (io\<lparr>lookupCount := lookupCount io + 1\<rparr>))"
    and m1: "resolved m1" "config m1 = config m" "resolvedHost m1 = a"
      "baseUrl m1 = showProtocol (protocol (config m)) @ ''://'' @ a @ '':'' @
                        showOptInt (port (config m)) @ ''/wsman''"
    by blast
  let ?io1 = "emit (Lookup (host (config m)) (if truthy (forceIPv4 (config m)) then 4 else 0)
                          (truthy (forceIPv4 (config m)))) (io\<lparr>lookupCount := lookupCount io + 1\<rparr>)"
  from assms(1) have un: "(baseUrl m = [] \<or> agent m = None) = True"
    by (simp add: resolved_def)
  from m1(1) have un1: "(baseUrl m1 = [] \<or> agent m1 = None) = False"
    by (simp add: resolved_def)
  have "makeRequest w m io action body n = makeRequest w m1 ?io1 action body n"
    apply (subst makeRequest.simps)
    apply (subst (2) makeRequest.simps)
    apply (simp only: un un1 if_True if_False r)
    done
  then show ?thesis using m1 by (intro exI [of _ m1] exI [of _ ?io1]) (simp add: emit_simps)
qed

lemma makeRequest_unresolved_fail:
  assumes "\<not> resolved m" and "dnsLookup w (lookupCount io) = Inl e"
  shows "makeRequest w m io action body n =
           (Inl (newError (''Failed to resolve host '' @ host (config m) @ '': '' @ message e)), m,
            emit (Lookup (host (config m)) (if truthy (forceIPv4 (config m)) then 4 else 0)
                   (truthy (forceIPv4 (config m)))) (io\<lparr>lookupCount := lookupCount io + 1\<rparr>))"
proof -
  from assms(1) have un: "(baseUrl m = [] \<or> agent m = None) = True"
    by (simp add: resolved_def)
  show ?thesis
    apply (subst makeRequest.simps)
    apply (simp only: un if_True resolveHost_fail [OF assms(2)])
    apply simp
    done
qed

text \<open>Entering with or without a resolved host: the rest of the call starts from a
  resolved manager.\<close>

lemma makeRequest_enter:
  assumes "resolved m \<or> (\<exists>a. dnsLookup w (lookupCount io) = Inr a)"
  shows "\<exists>m1 io1. makeRequest w m io action body n = makeRequest w m1 io1 action body n \<and>
           resolved m1 \<and> config m1 = config m \<and> requestCount io1 = requestCount io \<and>
           challengeCount io1 = challengeCount io \<and>
           lookupCount io \<le> lookupCount io1 \<and>
           (resolved m \<longrightarrow> m1 = m \<and> io1 = io) \<and>
           (\<not> resolved m \<longrightarrow> lookupCount io1 = lookupCount io + 1 \<and>
              dnsLookup w (lookupCount io1 - 1) = Inr (resolvedHost m1)) \<and>
           steps (trace io1) = steps (trace io) @ initialSteps m"
proof (cases "resolved m")
  case True
  then show ?thesis
    by (intro exI [of _ m] exI [of _ io]) (simp add: initialSteps_def)
next
  case False
  with assms obtain a where a: "dnsLookup w (lookupCount io) = Inr a" by blast
  from makeRequest_unresolved_ok [OF False a, of action body n] obtain m1 io1 where
    "makeRequest w m io action body n = makeRequest w m1 io1 action body n"
    "resolved m1" "config m1 = config m" "resolvedHost m1 = a"
    "lookupCount io1 = lookupCount io + 1" "requestCount io1 = requestCount io"
    "challengeCount io1 = challengeCount io"
    "trace io1 = trace io @ [Lookup (host (config m))
              (if truthy (forceIPv4 (config m)) then 4 else 0) (truthy (forceIPv4 (config m)))]"
    by blast
  with False a show ?thesis
    by (intro exI [of _ m1] exI [of _ io1])
       (simp add: initialSteps_def steps_append steps_Cons steps_Nil)
qed

text \<open>One round of the loop that fails with a connection error while retries are left.\<close>

lemma makeRequest_round:
  assumes res: "resolved m"
    and fail: "requestFetch w (requestCount io) = Inl e" "isConnectionError e"
    and left: "retriesLeft n (retries (config m))"
    and dns: "dnsLookup w (lookupCount io) = Inr a"
  shows "\<exists>m' io'. makeRequest w m io action body n = makeRequest w m' io' action body (n + 1) \<and>
           resolved m' \<and> config m' = config m \<and> resolvedHost m' = a \<and>
           requestCount io' = requestCount io + 1 \<and> lookupCount io' = lookupCount io + 1 \<and>
           steps (trace io') = steps (trace io) @ [Send action body, Wait (backoffDelay n), Resolve]"
proof -
  obtain h io2 where dg: "getDigestHeader w (digestOptionsOf m) io = (h, io2)"
    by (cases "getDigestHeader w (digestOptionsOf m) io")
  from getDigestHeader_frame [OF dg]
  have fr: "lookupCount io2 = lookupCount io" "requestCount io2 = requestCount io"
    "steps (trace io2) = steps (trace io)" by simp_all
  let ?req = "requestOptions m h action body"
  let ?io3 = "fetched ?req io2"
  let ?io3' = "emit (RetryWait (backoffDelay n)) ?io3"
  have sr: "sendRequest w ?req io2 = (Inl e, ?io3)"
    using fail(1) fr(2) by (simp add: sendRequest_fail)
  have "dnsLookup w (lookupCount ?io3') = Inr a"
    using dns fr(1) by (simp add: emit_simps fetched_simps)
  from resolveHost_ok [OF this, of m] obtain m' io' where
    rh: "resolveHost w m ?io3' = (Inr (), m', io')"
    and m': "resolved m'" "config m' = config m" "resolvedHost m' = a"
    and io': "io' = emit (Lookup (host (config m)) (if truthy (forceIPv4 (config m)) then 4 else 0)
                          (truthy (forceIPv4 (config m)))) (?io3'\<lparr>lookupCount := lookupCount ?io3' + 1\<rparr>)"
    by blast
  have "makeRequest w m io action body n = makeRequest w m' io' action body (n + 1)"
    by (simp add: makeRequest_resolved [OF res dg sr] fail(2) left rh)
  moreover have "requestCount io' = requestCount io + 1" "lookupCount io' = lookupCount io + 1"
    unfolding io' using fr by (simp_all add: emit_simps fetched_simps)
  moreover have "steps (trace io') = steps (trace io) @ [Send action body, Wait (backoffDelay n), Resolve]"
    unfolding io' using fr(3)
    by (simp add: emit_simps fetched_simps steps_append steps_Cons steps_Nil requestOptions_step)
  ultimately show ?thesis using m' by blast
qed

lemma retryRounds_0: "retryRounds action body n 0 = []"
  by (simp add: retryRounds_def)

lemma retryRounds_Suc:
  "retryRounds action body n (Suc N) =
     [Send action body, Wait (backoffDelay n), Resolve] @ retryRounds action body (Suc n) N"
proof -
  have "[0..<Suc N] = 0 # map Suc [0..<N]"
    by (simp add: upt_conv_Cons map_Suc_upt del: upt_Suc)
  then show ?thesis by (simp add: retryRounds_def comp_def del: upt_Suc)
qed

lemma retryRounds_length: "length (retryRounds action body n N) = 3 * N"
  by (induction N arbitrary: n) (simp_all add: retryRounds_0 retryRounds_Suc)

text \<open>The wait of round \<open>k\<close>.\<close>

lemma retryRounds_wait:
  "k < N \<Longrightarrow> retryRounds action body n N ! (3 * k + 1) = Wait (backoffDelay (n + k))"
proof (induction N arbitrary: n k)
  case 0
  then show ?case by simp
next
  case (Suc N)
  show ?case
  proof (cases k)
    case 0
    then show ?thesis by (simp add: retryRounds_Suc)
  next
    case (Suc j)
    with Suc.prems have j: "j < N" by simp
    have "3 * k + 1 = Suc (Suc (Suc (3 * j + 1)))" using Suc by simp
    then have "retryRounds action body n (Suc N) ! (3 * k + 1) =
        retryRounds action body (Suc n) N ! (3 * j + 1)"
      by (simp add: retryRounds_Suc)
    also have "\<dots> = Wait (backoffDelay (Suc n + j))" using j by (rule Suc.IH)
    finally show ?thesis using Suc by simp
  qed
qed

text \<open>\<open>N\<close> failing rounds in a row.\<close>

lemma makeRequest_rounds:
  assumes "resolved m"
    and "retries (config m) = Some R" and "int (n + N) \<le> R"
    and "\<forall>i<N. \<exists>e. requestFetch w (requestCount io + i) = Inl e \<and> isConnectionError e"
    and "\<forall>i<N. \<exists>a. dnsLookup w (lookupCount io + i) = Inr a"
  shows "\<exists>m' io'. makeRequest w m io action body n = makeRequest w m' io' action body (n + N) \<and>
           resolved m' \<and> config m' = config m \<and>
           requestCount io' = requestCount io + N \<and> lookupCount io' = lookupCount io + N \<and>
           (N = 0 \<longrightarrow> m' = m) \<and>
           (0 < N \<longrightarrow> dnsLookup w (lookupCount io' - 1) = Inr (resolvedHost m')) \<and>
           steps (trace io') = steps (trace io) @ retryRounds action body n N"
  using assms
proof (induction N arbitrary: m io n)
  case 0
  then show ?case by (intro exI [of _ m] exI [of _ io]) (simp add: retryRounds_0)
next
  case (Suc N)
  from Suc.prems(4) obtain e where e: "requestFetch w (requestCount io) = Inl e" "isConnectionError e"
    by force
  from Suc.prems(5) obtain a where a: "dnsLookup w (lookupCount io) = Inr a"
    by force
  from Suc.prems(2,3) have left: "retriesLeft n (retries (config m))"
    by (simp add: retriesLeft_def)
  from makeRequest_round [OF Suc.prems(1) e left a, of action body] obtain m1 io1 where
    step: "makeRequest w m io action body n = makeRequest w m1 io1 action body (n + 1)"
    and m1: "resolved m1" "config m1 = config m" "resolvedHost m1 = a"
    and io1: "requestCount io1 = requestCount io + 1" "lookupCount io1 = lookupCount io + 1"
      "steps (trace io1) = steps (trace io) @ [Send action body, Wait (backoffDelay n), Resolve]"
    by blast
  have p2: "retries (config m1) = Some R" using m1(2) Suc.prems(2) by simp
  have p3: "int (n + 1 + N) \<le> R" using Suc.prems(3) by simp
  have p4: "\<forall>i<N. \<exists>e. requestFetch w (requestCount io1 + i) = Inl e \<and> isConnectionError e"
  proof (intro allI impI)
    fix i assume "i < N"
    then have "Suc i < Suc N" by simp
    with Suc.prems(4) have "\<exists>e. requestFetch w (requestCount io + Suc i) = Inl e \<and> isConnectionError e"
      by blast
    then show "\<exists>e. requestFetch w (requestCount io1 + i) = Inl e \<and> isConnectionError e"
      by (simp add: io1(1))
  qed
  have p5: "\<forall>i<N. \<exists>a. dnsLookup w (lookupCount io1 + i) = Inr a"
  proof (intro allI impI)
    fix i assume "i < N"
    then have "Suc i < Suc N" by simp
    with Suc.prems(5) have "\<exists>a. dnsLookup w (lookupCount io + Suc i) = Inr a" by blast
    then show "\<exists>a. dnsLookup w (lookupCount io1 + i) = Inr a" by (simp add: io1(2))
  qed
  from Suc.IH [OF m1(1) p2 p3 p4 p5] obtain m' io' where
    rest: "makeRequest w m1 io1 action body (n + 1) = makeRequest w m' io' action body (n + 1 + N)"
    and m': "resolved m'" "config m' = config m1"
    and io': "requestCount io' = requestCount io1 + N" "lookupCount io' = lookupCount io1 + N"
      "N = 0 \<longrightarrow> m' = m1" "0 < N \<longrightarrow> dnsLookup w (lookupCount io' - 1) = Inr (resolvedHost m')"
      "steps (trace io') = steps (trace io1) @ retryRounds action body (n + 1) N"
    by blast
  have last: "dnsLookup w (lookupCount io' - 1) = Inr (resolvedHost m')"
  proof (cases "N = 0")
    case True
    with io'(2,3) io1(2) m1(3) a show ?thesis by simp
  next
    case False
    with io'(4) show ?thesis by simp
  qed
  have "makeRequest w m io action body n = makeRequest w m' io' action body (n + Suc N)"
    using step rest by simp
  moreover have "steps (trace io') = steps (trace io) @ retryRounds action body n (Suc N)"
    using io'(5) io1(3) by (simp add: retryRounds_Suc)
  ultimately show ?case
    using m' m1(2) io'(1,2) io1(1,2) last
    by (intro exI [of _ m'] exI [of _ io']) simp
qed

text \<open>The last round: success, exhaustion, a status outside 200 to 299, another error.\<close>

lemma makeRequest_last_ok:
  assumes "resolved m" and "requestFetch w (requestCount io) = Inr response" and "ok response"
  shows "\<exists>io'. makeRequest w m io action body n = (Inr response, m, io') \<and>
           requestCount io' = requestCount io + 1 \<and> lookupCount io' = lookupCount io \<and>
           steps (trace io') = steps (trace io) @ [Send action body]"
proof -
  obtain h io2 where dg: "getDigestHeader w (digestOptionsOf m) io = (h, io2)"
    by (cases "getDigestHeader w (digestOptionsOf m) io")
  from getDigestHeader_frame [OF dg]
  have fr: "lookupCount io2 = lookupCount io" "requestCount io2 = requestCount io"
    "steps (trace io2) = steps (trace io)" by simp_all
  let ?req = "requestOptions m h action body"
  have sr: "sendRequest w ?req io2 = (Inr response, fetched ?req io2)"
    using assms(2,3) fr(2) by (simp add: sendRequest_ok)
  show ?thesis
    using fr
    by (intro exI [of _ "fetched ?req io2"])
       (simp add: makeRequest_resolved [OF assms(1) dg sr] fetched_simps steps_append
          steps_Cons steps_Nil requestOptions_step)
qed

lemma makeRequest_last_exhausted:
  assumes "resolved m" and "requestFetch w (requestCount io) = Inl e" and "isConnectionError e"
    and "\<not> retriesLeft n (retries (config m))"
  shows "\<exists>io'. makeRequest w m io action body n = (Inl (exhaustedError m e), m, io') \<and>
           requestCount io' = requestCount io + 1 \<and> lookupCount io' = lookupCount io \<and>
           steps (trace io') = steps (trace io) @ [Send action body]"
proof -
  obtain h io2 where dg: "getDigestHeader w (digestOptionsOf m) io = (h, io2)"
    by (cases "getDigestHeader w (digestOptionsOf m) io")
  from getDigestHeader_frame [OF dg]
  have fr: "lookupCount io2 = lookupCount io" "requestCount io2 = requestCount io"
    "steps (trace io2) = steps (trace io)" by simp_all
  let ?req = "requestOptions m h action body"
  have sr: "sendRequest w ?req io2 = (Inl e, fetched ?req io2)"
    using assms(2) fr(2) by (simp add: sendRequest_fail)
  show ?thesis
    using fr assms(3,4)
    by (intro exI [of _ "fetched ?req io2"])
       (simp add: makeRequest_resolved [OF assms(1) dg sr] fetched_simps steps_append
          steps_Cons steps_Nil requestOptions_step)
qed

lemma makeRequest_last_error:
  assumes "resolved m" and "requestFetch w (requestCount io) = Inl e" and "\<not> isConnectionError e"
  shows "\<exists>io'. makeRequest w m io action body n = (Inl e, m, io') \<and>
           requestCount io' = requestCount io + 1 \<and> lookupCount io' = lookupCount io \<and>
           steps (trace io') = steps (trace io) @ [Send action body]"
proof -
  obtain h io2 where dg: "getDigestHeader w (digestOptionsOf m) io = (h, io2)"
    by (cases "getDigestHeader w (digestOptionsOf m) io")
  from getDigestHeader_frame [OF dg]
  have fr: "lookupCount io2 = lookupCount io" "requestCount io2 = requestCount io"
    "steps (trace io2) = steps (trace io)" by simp_all
  let ?req = "requestOptions m h action body"
  have sr: "sendRequest w ?req io2 = (Inl e, fetched ?req io2)"
    using assms(2) fr(2) by (simp add: sendRequest_fail)
  show ?thesis
    using fr assms(3)
    by (intro exI [of _ "fetched ?req io2"])
       (simp add: makeRequest_resolved [OF assms(1) dg sr] fetched_simps steps_append
          steps_Cons steps_Nil requestOptions_step)
qed

lemma makeRequest_last_status:
  assumes "resolved m" and "requestFetch w (requestCount io) = Inr response" and "\<not> ok response"
    and "bodyText response = Inr responseText"
  shows "\<exists>io'. makeRequest w m io action body n =
             (Inl (newError (''AMT request failed: '' @ showNat (status response) @ '' '' @
                     statusText response @ [CHR 0x0A] @ ''Response: '' @ responseText)), m, io') \<and>
           requestCount io' = requestCount io + 1 \<and> lookupCount io' = lookupCount io \<and>
           steps (trace io') = steps (trace io) @ [Send action body]"
proof -
  obtain h io2 where dg: "getDigestHeader w (digestOptionsOf m) io = (h, io2)"
    by (cases "getDigestHeader w (digestOptionsOf m) io")
  from getDigestHeader_frame [OF dg]
  have fr: "lookupCount io2 = lookupCount io" "requestCount io2 = requestCount io"
    "steps (trace io2) = steps (trace io)" by simp_all
  let ?req = "requestOptions m h action body"
  let ?err = "newError (''AMT request failed: '' @ showNat (status response) @ '' '' @
                     statusText response @ [CHR 0x0A] @ ''Response: '' @ responseText)"
  have sr: "sendRequest w ?req io2 = (Inl ?err, fetched ?req io2)"
    using assms(2,3,4) fr(2) sendRequest_status [of w io2 response responseText ?req] by simp
  have nc: "\<not> isConnectionError ?err" by (rule newError_not_connection)
  show ?thesis
    using fr nc
    by (intro exI [of _ "fetched ?req io2"])
       (simp add: makeRequest_resolved [OF assms(1) dg sr] fetched_simps steps_append
          steps_Cons steps_Nil requestOptions_step)
qed

lemma makeRequest_first_try:
  assumes "resolved m \<or> (\<exists>a. dnsLookup w (lookupCount io) = Inr a)"
    and "requestFetch w (requestCount io) = Inr response" and "ok response"
  shows "fst (makeRequest w m io action body n) = Inr response"
proof -
  from makeRequest_enter [OF assms(1), of action body n] obtain m1 io1 where
    e: "makeRequest w m io action body n = makeRequest w m1 io1 action body n"
    and m1: "resolved m1" and io1: "requestCount io1 = requestCount io"
    by blast
  from assms(2) io1 have "requestFetch w (requestCount io1) = Inr response" by simp
  from makeRequest_last_ok [OF m1 this assms(3), of action body n] e
  show ?thesis by auto
qed

lemma makeRequest_retry_unresolvable:
  assumes res: "resolved m"
    and fail: "requestFetch w (requestCount io) = Inl e1" "isConnectionError e1"
    and left: "retriesLeft n (retries (config m))"
    and dns: "dnsLookup w (lookupCount io) = Inl e"
  shows "\<exists>io'. makeRequest w m io action body n =
           (Inl (newError (''Failed to resolve host '' @ host (config m) @ '': '' @ message e)), m, io') \<and>
         requestCount io' = requestCount io + 1 \<and>
         steps (trace io') = steps (trace io) @ [Send action body, Wait (backoffDelay n), Resolve]"
proof -
  obtain h io2 where dg: "getDigestHeader w (digestOptionsOf m) io = (h, io2)"
    by (cases "getDigestHeader w (digestOptionsOf m) io")
  from getDigestHeader_frame [OF dg]
  have fr: "lookupCount io2 = lookupCount io" "requestCount io2 = requestCount io"
    "steps (trace io2) = steps (trace io)" by simp_all
  let ?req = "requestOptions m h action body"
  let ?io3 = "fetched ?req io2"
  let ?io3' = "emit (RetryWait (backoffDelay n)) ?io3"
  let ?io4 = "emit (Lookup (host (config m)) (if truthy (forceIPv4 (config m)) then 4 else 0)
                   (truthy (forceIPv4 (config m)))) (?io3'\<lparr>lookupCount := lookupCount ?io3' + 1\<rparr>)"
  have sr: "sendRequest w ?req io2 = (Inl e1, ?io3)"
    using fail(1) fr(2) by (simp add: sendRequest_fail)
  have "dnsLookup w (lookupCount ?io3') = Inl e"
    using dns fr(1) by (simp add: emit_simps fetched_simps)
  from resolveHost_fail [OF this, of m]
  have rh: "resolveHost w m ?io3' =
      (Inl (newError (''Failed to resolve host '' @ host (config m) @ '': '' @ message e)), m, ?io4)" .
  have "makeRequest w m io action body n =
      (Inl (newError (''Failed to resolve host '' @ host (config m) @ '': '' @ message e)), m, ?io4)"
    by (simp add: makeRequest_resolved [OF res dg sr] fail(2) left rh)
  moreover have "requestCount ?io4 = requestCount io + 1"
    using fr by (simp add: emit_simps fetched_simps)
  moreover have "steps (trace ?io4) = steps (trace io) @ [Send action body, Wait (backoffDelay n), Resolve]"
    using fr(3)
    by (simp add: emit_simps fetched_simps steps_append steps_Cons steps_Nil requestOptions_step)
  ultimately show ?thesis by blast
qed

lemma makeRequest_trace:
  "makeRequest w m io action body n = (r, m', io') \<Longrightarrow> prefix (trace io) (trace io')"
proof (induction w m io action body n arbitrary: r m' io' rule: makeRequest.induct)
  case (1 w m io action body n)
  obtain r0 m1 io1 where e:
    "(if baseUrl m = [] \<or> agent m = None then resolveHost w m io else (Inr (), m, io)) = (r0, m1, io1)"
    by (metis prod_cases3)
  have p1: "prefix (trace io) (trace io1)"
    using e by (auto dest: resolveHost_trace split: if_splits)
  show ?case
  proof (cases r0)
    case (Inl err)
    with e "1.prems" have "io' = io1" by (simp add: makeRequest.simps [of w m io])
    with p1 show ?thesis by simp
  next
    case (Inr u)
    obtain dh io2 where dg: "getDigestHeader w (digestOptionsOf m1) io1 = (dh, io2)"
      by (cases "getDigestHeader w (digestOptionsOf m1) io1")
    obtain r3 io3 where sr: "sendRequest w (requestOptions m1 dh action body) io2 = (r3, io3)"
      by (cases "sendRequest w (requestOptions m1 dh action body) io2")
    have p2: "prefix (trace io1) (trace io2)" using dg by (rule getDigestHeader_trace)
    have "io3 = fetched (requestOptions m1 dh action body) io2"
      using sr by (auto simp: sendRequest_def fetched_def Let_def split: sum.splits if_splits)
    then have p3: "prefix (trace io2) (trace io3)" by (simp add: fetched_simps)
    from p1 p2 p3 have p: "prefix (trace io) (trace io3)" by (meson prefix_order.trans)
    have unf: "makeRequest w m io action body n =
        (case r3 of
           Inr response \<Rightarrow> (Inr response, m1, io3)
         | Inl error \<Rightarrow>
             if isConnectionError error
             then (if retriesLeft n (retries (config m1))
                   then (case resolveHost w m1 (emit (RetryWait (backoffDelay n)) io3) of
                           (Inl e, m2, io4) \<Rightarrow> (Inl e, m2, io4)
                         | (Inr u', m2, io4) \<Rightarrow> makeRequest w m2 io4 action body (n + 1))
                   else (Inl (exhaustedError m1 error), m1, io3))
             else (Inl error, m1, io3))"
      by (subst makeRequest.simps) (simp add: e Inr dg sr split: sum.splits)
    show ?thesis
    proof (cases r3)
      case (Inr response)
      with unf "1.prems" have "io' = io3" by simp
      with p show ?thesis by simp
    next
      case (Inl error)
      note r3 = this
      show ?thesis
      proof (cases "isConnectionError error \<and> retriesLeft n (retries (config m1))")
        case False
        with unf r3 "1.prems" have "io' = io3" by (auto split: if_splits)
        with p show ?thesis by simp
      next
        case True
        obtain r4 m2 io4 where rh:
          "resolveHost w m1 (emit (RetryWait (backoffDelay n)) io3) = (r4, m2, io4)"
          by (metis prod_cases3)
        from resolveHost_trace [OF rh] have "prefix (trace io3) (trace io4)"
          by (auto simp: emit_simps dest: append_prefixD)
        with p have p4: "prefix (trace io) (trace io4)" by (meson prefix_order.trans)
        show ?thesis
        proof (cases r4)
          case (Inl e4)
          with unf r3 True rh "1.prems" have "io' = io4" by simp
          with p4 show ?thesis by simp
        next
          case (Inr u')
          with unf r3 True rh "1.prems"
          have rec: "makeRequest w m2 io4 action body (n + 1) = (r, m', io')" by simp
          have "prefix (trace io4) (trace io')"
            using "1.IH" [of r0 "(m1, io1)" u m1 io1 dh io2 r3 io3 error r4 "(m2, io4)" u' m2 io4 r m' io']
              e \<open>r0 = Inr u\<close> dg sr r3 True rh Inr rec
            by simp
          with p4 show ?thesis by (meson prefix_order.trans)
        qed
      qed
    qed
  qed
qed

lemma makeRequest_after_send:
  assumes res: "resolved m"
    and dg: "getDigestHeader w (digestOptionsOf m) io = (h, io2)"
    and mr: "makeRequest w m io action body n = (r, m', io')"
  shows "prefix (trace (fetched (requestOptions m h action body) io2)) (trace io')"
proof -
  let ?req = "requestOptions m h action body"
  let ?io3 = "fetched ?req io2"
  obtain r3 where sr: "sendRequest w ?req io2 = (r3, ?io3)"
    by (cases "sendRequest w ?req io2")
       (auto simp: sendRequest_def fetched_def Let_def split: sum.splits if_splits)
  note unf = makeRequest_resolved [OF res dg sr, of n]
  show ?thesis
  proof (cases r3)
    case (Inr response)
    with unf mr have "io' = ?io3" by simp
    then show ?thesis by simp
  next
    case (Inl error)
    note r3 = this
    show ?thesis
    proof (cases "isConnectionError error \<and> retriesLeft n (retries (config m))")
      case False
      with unf r3 mr have "io' = ?io3" by (auto split: if_splits)
      then show ?thesis by simp
    next
      case True
      obtain r4 m2 io4 where rh:
        "resolveHost w m (emit (RetryWait (backoffDelay n)) ?io3) = (r4, m2, io4)"
        by (metis prod_cases3)
      from resolveHost_trace [OF rh] have p4: "prefix (trace ?io3) (trace io4)"
        by (auto simp: emit_simps dest: append_prefixD)
      show ?thesis
      proof (cases r4)
        case (Inl e4)
        with unf r3 True rh mr have "io' = io4" by simp
        with p4 show ?thesis by simp
      next
        case (Inr u')
        with unf r3 True rh mr
        have "makeRequest w m2 io4 action body (n + 1) = (r, m', io')" by simp
        from makeRequest_trace [OF this] p4 show ?thesis by (meson prefix_order.trans)
      qed
    qed
  qed
qed

lemma getPowerState_body:
  assumes "fst (makeRequest w m (io\<lparr>uuidCount := uuidCount io + 1\<rparr>)
             ''http://schemas.dmtf.org/wbem/wscim/1/wsman/Enumerate''
             (createGetPowerStateRequest (randomUUID w (uuidCount io))) 0) = Inr response"
    and "bodyText response = Inr t"
  shows "fst (getPowerState w m io) = Inr (powerStateOf t)"
  using assms by (auto simp: getPowerState_def split: prod.splits sum.splits)

lemma resolveHost_effect:
  assumes "resolveHost w m io = (r, m', io')"
  shows "lookupCount io' = lookupCount io + 1"
    and "config m' = config m"
    and "\<exists>f a. trace io' = trace io @ [Lookup (host (config m)) f a]"
    and "dnsLookup w (lookupCount io) = Inl e \<Longrightarrow>
           r = Inl (newError (''Failed to resolve host '' @ host (config m) @ '': '' @ message e))"
    and "r = Inr u \<Longrightarrow> \<exists>a. dnsLookup w (lookupCount io) = Inr a"
proof -
  show "lookupCount io' = lookupCount io + 1"
    using assms by (cases "dnsLookup w (lookupCount io)") (auto simp: resolveHost_def Let_def emit_simps)
  show "config m' = config m" using assms by (rule resolveHost_config)
  show "\<exists>f a. trace io' = trace io @ [Lookup (host (config m)) f a]"
    using assms by (cases "dnsLookup w (lookupCount io)") (auto simp: resolveHost_def Let_def emit_simps)
  show "r = Inl (newError (''Failed to resolve host '' @ host (config m) @ '': '' @ message e))"
    if d: "dnsLookup w (lookupCount io) = Inl e"
    using resolveHost_fail [OF d, of m] assms by simp
  show "r = Inr u \<Longrightarrow> \<exists>a. dnsLookup w (lookupCount io) = Inr a"
    using assms by (cases "dnsLookup w (lookupCount io)") (simp_all add: resolveHost_def Let_def)
qed

text \<open>A lookup that fails during a call is the last thing the call does.\<close>

lemma makeRequest_failed_lookup_is_last:
  assumes "makeRequest w m io action body n = (r, m', io')"
    and "lookupCount io \<le> k" and "k < lookupCount io'" and "dnsLookup w k = Inl e"
  shows "k + 1 = lookupCount io' \<and>
         r = Inl (newError (''Failed to resolve host '' @ host (config m) @ '': '' @ message e)) \<and>
         (\<exists>before f a. trace io' = before @ [Lookup (host (config m)) f a])"
  using assms
proof (induction w m io action body n arbitrary: r m' io' rule: makeRequest.induct)
  case (1 w m io action body n)
  let ?err = "Inl (newError (''Failed to resolve host '' @ host (config m) @ '': '' @ message e))"
  obtain r0 m1 io1 where e0:
    "(if baseUrl m = [] \<or> agent m = None then resolveHost w m io else (Inr (), m, io)) = (r0, m1, io1)"
    by (metis prod_cases3)
  have c1: "config m1 = config m"
    using e0 by (auto dest: resolveHost_effect(2) split: if_splits)
  have l1: "lookupCount io \<le> lookupCount io1" "lookupCount io1 \<le> lookupCount io + 1"
    using e0 by (auto dest: resolveHost_effect(1) split: if_splits)
  show ?case
  proof (cases r0)
    case (Inl err)
    with e0 "1.prems"(1) have res: "r = Inl err" "io' = io1" by (simp_all add: makeRequest.simps [of w m io])
    from Inl e0 have rh: "resolveHost w m io = (Inl err, m1, io1)" by (auto split: if_splits)
    from resolveHost_effect(1) [OF rh] "1.prems"(2,3) res have k: "k = lookupCount io" by simp
    from resolveHost_effect(4) [OF rh] "1.prems"(4) k have "Inl err = ?err" by simp
    moreover from resolveHost_effect(3) [OF rh]
    have "\<exists>before f a. trace io1 = before @ [Lookup (host (config m)) f a]" by blast
    ultimately show ?thesis using res k resolveHost_effect(1) [OF rh] by simp
  next
    case (Inr u)
    have early: "k < lookupCount io1 \<Longrightarrow> False"
    proof -
      assume "k < lookupCount io1"
      with "1.prems"(2) l1 have k: "k = lookupCount io" and up: "lookupCount io1 = lookupCount io + 1"
        by simp_all
      have un: "baseUrl m = [] \<or> agent m = None"
      proof (rule ccontr)
        assume "\<not> (baseUrl m = [] \<or> agent m = None)"
        with e0 have "io1 = io" by simp
        with up show False by simp
      qed
      with e0 Inr have rh: "resolveHost w m io = (Inr u, m1, io1)" by simp
      from resolveHost_effect(5) [OF this refl] have "\<exists>a. dnsLookup w (lookupCount io) = Inr a" .
      with "1.prems"(4) k show False by simp
    qed
    obtain dh io2 where dg: "getDigestHeader w (digestOptionsOf m1) io1 = (dh, io2)"
      by (cases "getDigestHeader w (digestOptionsOf m1) io1")
    obtain r3 io3 where sr: "sendRequest w (requestOptions m1 dh action body) io2 = (r3, io3)"
      by (cases "sendRequest w (requestOptions m1 dh action body) io2")
    have l2: "lookupCount io2 = lookupCount io1" using getDigestHeader_frame [OF dg] by simp
    have "io3 = fetched (requestOptions m1 dh action body) io2"
      using sr by (auto simp: sendRequest_def fetched_def Let_def split: sum.splits if_splits)
    then have l3: "lookupCount io3 = lookupCount io1" using l2 by (simp add: fetched_simps)
    have unf: "makeRequest w m io action body n =
        (case r3 of
           Inr response \<Rightarrow> (Inr response, m1, io3)
         | Inl error \<Rightarrow>
             if isConnectionError error
             then (if retriesLeft n (retries (config m1))
                   then (case resolveHost w m1 (emit (RetryWait (backoffDelay n)) io3) of
                           (Inl e, m2, io4) \<Rightarrow> (Inl e, m2, io4)
                         | (Inr u', m2, io4) \<Rightarrow> makeRequest w m2 io4 action body (n + 1))
                   else (Inl (exhaustedError m1 error), m1, io3))
             else (Inl error, m1, io3))"
      by (subst makeRequest.simps) (simp add: e0 Inr dg sr split: sum.splits)
    show ?thesis
    proof (cases r3)
      case (Inr response)
      with unf "1.prems"(1) have "io' = io3" by simp
      with "1.prems"(3) l3 early show ?thesis by simp
    next
      case (Inl error)
      note r3 = this
      show ?thesis
      proof (cases "isConnectionError error \<and> retriesLeft n (retries (config m1))")
        case False
        with unf r3 "1.prems"(1) have "io' = io3" by (auto split: if_splits)
        with "1.prems"(3) l3 early show ?thesis by simp
      next
        case True
        let ?io3' = "emit (RetryWait (backoffDelay n)) io3"
        obtain r4 m2 io4 where rh: "resolveHost w m1 ?io3' = (r4, m2, io4)"
          by (metis prod_cases3)
        note eff = resolveHost_effect [OF rh]
        have l4: "lookupCount io4 = lookupCount io1 + 1" using eff(1) l3 by (simp add: emit_simps)
        show ?thesis
        proof (cases r4)
          case (Inl e4)
          with unf r3 True rh "1.prems"(1) have res: "r = Inl e4" "io' = io4" by simp_all
          from "1.prems"(3) res l4 early have k: "k = lookupCount io1" by (cases "k < lookupCount io1") simp_all
          then have "dnsLookup w (lookupCount ?io3') = Inl e"
            using "1.prems"(4) l3 by (simp add: emit_simps)
          from eff(4) [OF this] Inl c1 have "Inl e4 = ?err" by simp
          moreover from eff(3) c1
          have "\<exists>before f a. trace io4 = before @ [Lookup (host (config m)) f a]" by auto
          ultimately show ?thesis using res k l4 by simp
        next
          case (Inr u')
          with unf r3 True rh "1.prems"(1)
          have rec: "makeRequest w m2 io4 action body (n + 1) = (r, m', io')" by simp
          have ok4: "\<exists>a. dnsLookup w (lookupCount io1) = Inr a"
            using resolveHost_effect(5) [OF rh Inr] l3 by (simp add: emit_simps)
          have k4: "lookupCount io4 \<le> k"
          proof (rule ccontr)
            assume "\<not> lookupCount io4 \<le> k"
            with l4 have "k < lookupCount io1 \<or> k = lookupCount io1" by auto
            with early ok4 "1.prems"(4) show False by auto
          qed
          have "k + 1 = lookupCount io' \<and>
             r = Inl (newError (''Failed to resolve host '' @ host (config m2) @ '': '' @ message e)) \<and>
             (\<exists>before f a. trace io' = before @ [Lookup (host (config m2)) f a])"
            using "1.IH" [of r0 "(m1, io1)" u m1 io1 dh io2 r3 io3 error r4 "(m2, io4)" u' m2 io4 r m' io']
              e0 \<open>r0 = Inr u\<close> dg sr r3 True rh Inr rec k4 "1.prems"(3,4)
            by simp
          with eff(2) c1 show ?thesis by simp
        qed
      qed
    qed
  qed
qed

subsection \<open>A body that cannot be read\<close>

text \<open>A response that is not \<open>ok\<close> and whose body cannot be read: the error of the read
  is the one the \<open>catch\<close> block sees.\<close>

lemma sendRequest_body_fail:
  "requestFetch w (requestCount io) = Inr response \<Longrightarrow> \<not> ok response \<Longrightarrow>
   bodyText response = Inl e \<Longrightarrow>
     sendRequest w req io = (Inl e, fetched req io)"
  by (simp add: sendRequest_def fetched_def)

lemma makeRequest_unread_round:
  assumes res: "resolved m"
    and resp: "requestFetch w (requestCount io) = Inr response" "\<not> ok response"
    and fail: "bodyText response = Inl e" "isConnectionError e"
    and left: "retriesLeft n (retries (config m))"
    and dns: "dnsLookup w (lookupCount io) = Inr a"
  shows "\<exists>m' io'. makeRequest w m io action body n = makeRequest w m' io' action body (n + 1) \<and>
           resolved m' \<and> config m' = config m \<and> resolvedHost m' = a \<and>
           requestCount io' = requestCount io + 1 \<and> lookupCount io' = lookupCount io + 1 \<and>
           steps (trace io') = steps (trace io) @ [Send action body, Wait (backoffDelay n), Resolve]"
proof -
  obtain h io2 where dg: "getDigestHeader w (digestOptionsOf m) io = (h, io2)"
    by (cases "getDigestHeader w (digestOptionsOf m) io")
  from getDigestHeader_frame [OF dg]
  have fr: "lookupCount io2 = lookupCount io" "requestCount io2 = requestCount io"
    "steps (trace io2) = steps (trace io)" by simp_all
  let ?req = "requestOptions m h action body"
  let ?io3 = "fetched ?req io2"
  let ?io3' = "emit (RetryWait (backoffDelay n)) ?io3"
  have sr: "sendRequest w ?req io2 = (Inl e, ?io3)"
    using resp fail(1) fr(2) by (simp add: sendRequest_body_fail)
  have "dnsLookup w (lookupCount ?io3') = Inr a"
    using dns fr(1) by (simp add: emit_simps fetched_simps)
  from resolveHost_ok [OF this, of m] obtain m' io' where
    rh: "resolveHost w m ?io3' = (Inr (), m', io')"
    and m': "resolved m'" "config m' = config m" "resolvedHost m' = a"
    and io': "io' = emit (Lookup (host (config m)) (if truthy (forceIPv4 (config m)) then 4 else 0)
                          (truthy (forceIPv4 (config m)))) (?io3'\<lparr>lookupCount := lookupCount ?io3' + 1\<rparr>)"
    by blast
  have "makeRequest w m io action body n = makeRequest w m' io' action body (n + 1)"
    by (simp add: makeRequest_resolved [OF res dg sr] fail(2) left rh)
  moreover have "requestCount io' = requestCount io + 1" "lookupCount io' = lookupCount io + 1"
    unfolding io' using fr by (simp_all add: emit_simps fetched_simps)
  moreover have "steps (trace io') = steps (trace io) @ [Send action body, Wait (backoffDelay n), Resolve]"
    unfolding io' using fr(3)
    by (simp add: emit_simps fetched_simps steps_append steps_Cons steps_Nil requestOptions_step)
  ultimately show ?thesis using m' by blast
qed

lemma makeRequest_unread_error:
  assumes "resolved m" and "requestFetch w (requestCount io) = Inr response" and "\<not> ok response"
    and "bodyText response = Inl e" and "\<not> isConnectionError e"
  shows "\<exists>io'. makeRequest w m io action body n = (Inl e, m, io') \<and>
           requestCount io' = requestCount io + 1 \<and> lookupCount io' = lookupCount io \<and>
           steps (trace io') = steps (trace io) @ [Send action body]"
proof -
  obtain h io2 where dg: "getDigestHeader w (digestOptionsOf m) io = (h, io2)"
    by (cases "getDigestHeader w (digestOptionsOf m) io")
  from getDigestHeader_frame [OF dg]
  have fr: "lookupCount io2 = lookupCount io" "requestCount io2 = requestCount io"
    "steps (trace io2) = steps (trace io)" by simp_all
  let ?req = "requestOptions m h action body"
  have sr: "sendRequest w ?req io2 = (Inl e, fetched ?req io2)"
    using assms(2,3,4) fr(2) by (simp add: sendRequest_body_fail)
  show ?thesis
    using fr assms(5)
    by (intro exI [of _ "fetched ?req io2"])
       (simp add: makeRequest_resolved [OF assms(1) dg sr] fetched_simps steps_append
          steps_Cons steps_Nil requestOptions_step)
qed

lemma makeRequest_unread_exhausted:
  assumes "resolved m" and "requestFetch w (requestCount io) = Inr response" and "\<not> ok response"
    and "bodyText response = Inl e" and "isConnectionError e"
    and "\<not> retriesLeft n (retries (config m))"
  shows "\<exists>io'. makeRequest w m io action body n = (Inl (exhaustedError m e), m, io') \<and>
           requestCount io' = requestCount io + 1 \<and> lookupCount io' = lookupCount io \<and>
           steps (trace io') = steps (trace io) @ [Send action body]"
proof -
  obtain h io2 where dg: "getDigestHeader w (digestOptionsOf m) io = (h, io2)"
    by (cases "getDigestHeader w (digestOptionsOf m) io")
  from getDigestHeader_frame [OF dg]
  have fr: "lookupCount io2 = lookupCount io" "requestCount io2 = requestCount io"
    "steps (trace io2) = steps (trace io)" by simp_all
  let ?req = "requestOptions m h action body"
  have sr: "sendRequest w ?req io2 = (Inl e, fetched ?req io2)"
    using assms(2,3,4) fr(2) by (simp add: sendRequest_body_fail)
  show ?thesis
    using fr assms(5,6)
    by (intro exI [of _ "fetched ?req io2"])
       (simp add: makeRequest_resolved [OF assms(1) dg sr] fetched_simps steps_append
          steps_Cons steps_Nil requestOptions_step)
qed

lemma steps_prefix: "prefix xs ys \<Longrightarrow> \<exists>rest. steps ys = steps xs @ rest"
  by (auto simp: prefix_def steps_append)

lemma makeRequest_unread_retried:
  assumes res: "resolved m"
    and resp: "requestFetch w (requestCount io) = Inr response" "\<not> ok response"
    and unread: "bodyText response = Inl e" "isConnectionError e"
    and left: "retriesLeft n (retries (config m))"
  shows "\<exists>r m' io' rest. makeRequest w m io action body n = (r, m', io') \<and>
           steps (trace io') =
             steps (trace io) @ [Send action body, Wait (backoffDelay n), Resolve] @ rest"
proof -
  obtain h io2 where dg: "getDigestHeader w (digestOptionsOf m) io = (h, io2)"
    by (cases "getDigestHeader w (digestOptionsOf m) io")
  from getDigestHeader_frame [OF dg]
  have fr: "lookupCount io2 = lookupCount io" "requestCount io2 = requestCount io"
    "steps (trace io2) = steps (trace io)" by simp_all
  let ?req = "requestOptions m h action body"
  let ?io3 = "fetched ?req io2"
  let ?io3' = "emit (RetryWait (backoffDelay n)) ?io3"
  have sr: "sendRequest w ?req io2 = (Inl e, ?io3)"
    using resp unread(1) fr(2) by (simp add: sendRequest_body_fail)
  obtain r4 m2 io4 where rh: "resolveHost w m ?io3' = (r4, m2, io4)"
    by (metis prod_cases3)
  from resolveHost_effect(3) [OF rh] obtain f a where
    "trace io4 = trace ?io3' @ [Lookup (host (config m)) f a]" by blast
  then have s4: "steps (trace io4) = steps (trace io) @ [Send action body, Wait (backoffDelay n), Resolve]"
    using fr(3)
    by (simp add: emit_simps fetched_simps steps_append steps_Cons steps_Nil requestOptions_step)
  show ?thesis
  proof (cases r4)
    case (Inl e4)
    then have "makeRequest w m io action body n = (Inl e4, m2, io4)"
      by (simp add: makeRequest_resolved [OF res dg sr] unread(2) left rh)
    with s4 show ?thesis by (intro exI [of _ "Inl e4"] exI [of _ m2] exI [of _ io4] exI [of _ "[]"]) simp
  next
    case (Inr u)
    obtain r m' io' where mr: "makeRequest w m2 io4 action body (n + 1) = (r, m', io')"
      by (metis prod_cases3)
    from Inr mr have "makeRequest w m io action body n = (r, m', io')"
      by (simp add: makeRequest_resolved [OF res dg sr] unread(2) left rh)
    moreover from steps_prefix [OF makeRequest_trace [OF mr]] s4
    obtain rest where "steps (trace io') =
        steps (trace io) @ [Send action body, Wait (backoffDelay n), Resolve] @ rest" by auto
    ultimately show ?thesis by blast
  qed
qed

subsection \<open>The sample device\<close>

lemma showNat_numeral:
  "showNat (numeral k) =
     (if (numeral k :: nat) < 10 then [digitChar (numeral k)]
      else showNat (numeral k div 10) @ [digitChar (numeral k mod 10)])"
  by (rule showNat.simps)

lemma showNat_Suc_0: "showNat (Suc 0) = ''1''"
  by (simp add: showNat.simps [of "Suc 0"] digitChar_def)

lemma sampleWorld_sel:
  "md5Hex (sampleWorld l c r) = sampleHash"
  "dnsLookup (sampleWorld l c r) = l"
  "challengeFetch (sampleWorld l c r) = c"
  "requestFetch (sampleWorld l c r) = r"
  by (simp_all add: sampleWorld_def)

lemma sample_request_answered:
  "fst (makeRequest
         (sampleWorld (always (Inr a)) c (always (Inr (answer 200 b))))
         sampleManager (sampleIo\<lparr>uuidCount := n\<rparr>) action body 0) = Inr (answer 200 b)"
  by (rule makeRequest_first_try) (simp_all add: sampleWorld_sel always_def answer_def ok_def)

lemma sampleChallenge_parses:
  "\<exists>x. parseAuthHeader sampleChallenge =
     Inr \<lparr>realm = ''Digest:A4720000000000000000000000000000'',
          nonce = ''jH2uAQAAAAAcyGIlXY8OFspUmTa5h5zS'', extra = x\<rparr>"
  by (simp add: parseAuthHeader_def sampleChallenge_def scanLoop.simps matchPairAt_def
        isWordChar_def notQuote_def assign_def Let_def)

lemma sampleChallenge_ok: "sampleChallenge \<noteq> [] \<and> \<not> isl (parseAuthHeader sampleChallenge)"
proof -
  from sampleChallenge_parses obtain x where
    "parseAuthHeader sampleChallenge =
     Inr \<lparr>realm = ''Digest:A4720000000000000000000000000000'',
          nonce = ''jH2uAQAAAAAcyGIlXY8OFspUmTa5h5zS'', extra = x\<rparr>" by blast
  then show ?thesis by (simp add: sampleChallenge_def)
qed

section \<open>The claims\<close>

text \<open>
  Claim C1. With the client nonce that the random source yields fixed to \<open>cnonce\<close>,
  \<open>constructDigestAuthHeader\<close> returns the header written out below, character by
  character. The response is the hash of \<open>HA1:nonce:00000001:cnonce:auth:HA2\<close>, where
  \<open>HA1\<close> is the hash of \<open>username:realm:password\<close> and \<open>HA2\<close> the hash of \<open>method:uri\<close>;
  the method is \<open>POST\<close> when the options give none. The header is a function of the
  challenge, the options, the hash function and that nonce alone: a call in another state
  of the outside that draws the same nonce returns the same header. Each call draws one
  nonce.
\<close>

theorem constructDigestAuthHeader_literal:
  assumes "randomBytesHex w (randomCount io) = cnonce"
    and "HA1 = md5Hex w (DigestOptions.username options @ '':'' @ realm authParams @ '':'' @
                          DigestOptions.password options)"
    and "HA2 = md5Hex w ((case httpMethod options of None \<Rightarrow> ''POST'' | Some m \<Rightarrow> m) @ '':'' @
                          url options)"
    and "response = md5Hex w (HA1 @ '':'' @ nonce authParams @ '':00000001:'' @ cnonce @
                              '':auth:'' @ HA2)"
  shows \<open>fst (constructDigestAuthHeader w authParams options io) =
     ''Digest username="'' @ DigestOptions.username options @
     ''", realm="'' @ realm authParams @
     ''", nonce="'' @ nonce authParams @
     ''", uri="'' @ url options @
     ''", cnonce="'' @ cnonce @
     ''", nc=00000001, qop=auth, response="'' @ response @ ''"'' \<and>
     (md5Hex w' = md5Hex w \<and> randomBytesHex w' (randomCount io') = cnonce \<longrightarrow>
        fst (constructDigestAuthHeader w' authParams options io') =
        fst (constructDigestAuthHeader w authParams options io)) \<and>
     randomCount (snd (constructDigestAuthHeader w authParams options io)) = randomCount io + 1\<close>
proof (intro conjI impI)
  show \<open>fst (constructDigestAuthHeader w authParams options io) =
     ''Digest username="'' @ DigestOptions.username options @
     ''", realm="'' @ realm authParams @
     ''", nonce="'' @ nonce authParams @
     ''", uri="'' @ url options @
     ''", cnonce="'' @ cnonce @
     ''", nc=00000001, qop=auth, response="'' @ response @ ''"''\<close>
    using assms by (simp add: constructDigestAuthHeader_def Let_def)
  show "randomCount (snd (constructDigestAuthHeader w authParams options io)) = randomCount io + 1"
    by (simp add: constructDigestAuthHeader_def Let_def)
next
  assume "md5Hex w' = md5Hex w \<and> randomBytesHex w' (randomCount io') = cnonce"
  with assms(1)
  show "fst (constructDigestAuthHeader w' authParams options io') =
        fst (constructDigestAuthHeader w authParams options io)"
    by (simp add: constructDigestAuthHeader_def Let_def)
qed

theorem constructDigestAuthHeader_literal_witness:
  \<open>fst (constructDigestAuthHeader
         (sampleWorld (always (Inr ''192.168.1.100'')) (always (Inr (Some sampleChallenge)))
            (always (Inr (answer 200 ''done''))))
         \<lparr>realm = ''amt'', nonce = ''abc'', extra = Map.empty\<rparr>
         \<lparr>url = ''http://192.168.1.100:16992/wsman'', DigestOptions.username = ''admin'',
          DigestOptions.password = ''secret'', httpMethod = None, headers = None\<rparr>
         sampleIo) =
     ''Digest username="admin", realm="amt", nonce="abc", uri="http://192.168.1.100:16992/wsman", cnonce="0a4f113b2c9d8e7f6a5b4c3d2e1f0a9b", nc=00000001, qop=auth, response="h(h(admin:amt:secret):abc:00000001:0a4f113b2c9d8e7f6a5b4c3d2e1f0a9b:auth:h(POST:http://192.168.1.100:16992/wsman))"''\<close>
  using constructDigestAuthHeader_literal [of
      "sampleWorld (always (Inr ''192.168.1.100'')) (always (Inr (Some sampleChallenge)))
            (always (Inr (answer 200 ''done'')))"
      sampleIo "''0a4f113b2c9d8e7f6a5b4c3d2e1f0a9b''" _
      "\<lparr>url = ''http://192.168.1.100:16992/wsman'', DigestOptions.username = ''admin'',
          DigestOptions.password = ''secret'', httpMethod = None, headers = None\<rparr>"
      "\<lparr>realm = ''amt'', nonce = ''abc'', extra = Map.empty\<rparr>" _ _, OF _ refl refl refl]
  by (simp add: sampleWorld_def sampleHash_def)

text \<open>
  Claim C2. Let the configured maximum of retries be \<open>R\<close>, at most \<open>2^53\<close> so that
  JavaScript counts the retries exactly, let the first \<open>N\<close> requests of a call of
  \<open>makeRequest\<close> fail with an error that the \<open>catch\<close> block takes for a connection error
  (code \<open>ECONNRESET\<close>, \<open>ETIMEDOUT\<close> or \<open>ECONNREFUSED\<close>, or type \<open>system\<close>), and let the name
  lookups of the call succeed. If \<open>N \<le> R\<close> and the next request succeeds, the call
  returns that response after exactly \<open>N\<close> retries: each failed request is followed by a
  wait and a new resolution of the host, and the same action and body are sent again. The
  delay handed to \<open>setTimeout\<close> before retry \<open>k\<close> (\<open>k = 0, 1, ...\<close>) is \<open>1000 * 2^k\<close>
  milliseconds up to \<open>k = 1014\<close>, and \<open>Infinity\<close> from \<open>k = 1015\<close> on, where the product
  \<open>Math.pow(2, k) * 1000\<close> is beyond the largest double. If \<open>N = R\<close> and the next request
  fails in the same way, the call fails after exactly \<open>N\<close> retries with an error whose
  message names the message of that last error, the address resolved last and the port.
  If the next request fails with any other error, the call fails with that error itself,
  and nothing is retried.
\<close>

theorem makeRequest_retry_backoff:
  assumes cfg: "retries (config m) = Some R" and range: "R \<le> 2 ^ 53"
    and fails: "\<forall>i<N. \<exists>e. requestFetch w (requestCount io + i) = Inl e \<and> isConnectionError e"
    and dns: "\<forall>i\<le>N. \<exists>a. dnsLookup w (lookupCount io + i) = Inr a"
  shows
    "(int N \<le> R \<and> requestFetch w (requestCount io + N) = Inr response \<and> ok response \<longrightarrow>
        (\<exists>m' io'. makeRequest w m io action body 0 = (Inr response, m', io') \<and>
           requestCount io' = requestCount io + N + 1 \<and>
           steps (trace io') = steps (trace io) @ initialSteps m @
             concat (map (\<lambda>k. [Send action body, Wait (if k \<le> 1014 then Num (1000 * 2 ^ k) else Infinity), Resolve]) [0..<N]) @
             [Send action body])) \<and>
     (int N = R \<and> requestFetch w (requestCount io + N) = Inl err \<and> isConnectionError err \<longrightarrow>
        (\<exists>m' io'. makeRequest w m io action body 0 =
             (Inl (newError (''Failed to connect to AMT device after '' @ showInt R @
                     '' attempts. Last error: '' @ message err @ '' ('' @ resolvedHost m' @
                     '':'' @ showOptInt (port (config m)) @ '')'')), m', io') \<and>
           (if N = 0 \<and> resolved m then m' = m
            else dnsLookup w (lookupCount io' - 1) = Inr (resolvedHost m')) \<and>
           requestCount io' = requestCount io + N + 1 \<and>
           steps (trace io') = steps (trace io) @ initialSteps m @
             concat (map (\<lambda>k. [Send action body, Wait (if k \<le> 1014 then Num (1000 * 2 ^ k) else Infinity), Resolve]) [0..<N]) @
             [Send action body])) \<and>
     (int N \<le> R \<and> requestFetch w (requestCount io + N) = Inl err \<and> \<not> isConnectionError err \<longrightarrow>
        (\<exists>m' io'. makeRequest w m io action body 0 = (Inl err, m', io') \<and>
           requestCount io' = requestCount io + N + 1 \<and>
           steps (trace io') = steps (trace io) @ initialSteps m @
             concat (map (\<lambda>k. [Send action body, Wait (if k \<le> 1014 then Num (1000 * 2 ^ k) else Infinity), Resolve]) [0..<N]) @
             [Send action body]))"
proof -
  have rounds: "concat (map (\<lambda>k. [Send action body, Wait (if k \<le> 1014 then Num (1000 * 2 ^ k) else Infinity), Resolve]) [0..<N]) =
      retryRounds action body 0 N"
    by (simp add: retryRounds_def backoffDelay_value)
  from dns have "\<exists>a. dnsLookup w (lookupCount io + 0) = Inr a" by blast
  then have "resolved m \<or> (\<exists>a. dnsLookup w (lookupCount io) = Inr a)" by simp
  from makeRequest_enter [OF this, of action body 0] obtain m1 io1 where
    enter: "makeRequest w m io action body 0 = makeRequest w m1 io1 action body 0"
    and m1: "resolved m1" "config m1 = config m"
    and io1: "requestCount io1 = requestCount io" "lookupCount io \<le> lookupCount io1"
      "resolved m \<longrightarrow> m1 = m \<and> io1 = io"
      "\<not> resolved m \<longrightarrow> lookupCount io1 = lookupCount io + 1 \<and>
          dnsLookup w (lookupCount io1 - 1) = Inr (resolvedHost m1)"
      "steps (trace io1) = steps (trace io) @ initialSteps m"
    by blast
  have le: "int N \<le> R \<Longrightarrow> \<exists>m2 io2.
      makeRequest w m io action body 0 = makeRequest w m2 io2 action body N \<and>
      resolved m2 \<and> config m2 = config m \<and> requestCount io2 = requestCount io + N \<and>
      (if N = 0 \<and> resolved m then m2 = m
       else dnsLookup w (lookupCount io2 - 1) = Inr (resolvedHost m2)) \<and>
      lookupCount io2 = lookupCount io1 + N \<and>
      steps (trace io2) = steps (trace io) @ initialSteps m @ retryRounds action body 0 N"
  proof -
    assume "int N \<le> R"
    then have b: "int (0 + N) \<le> R" by simp
    have c: "retries (config m1) = Some R" using cfg m1(2) by simp
    have f: "\<forall>i<N. \<exists>e. requestFetch w (requestCount io1 + i) = Inl e \<and> isConnectionError e"
      using fails io1(1) by simp
    have d: "\<forall>i<N. \<exists>a. dnsLookup w (lookupCount io1 + i) = Inr a"
    proof (intro allI impI)
      fix i assume i: "i < N"
      show "\<exists>a. dnsLookup w (lookupCount io1 + i) = Inr a"
      proof (cases "resolved m")
        case True
        with io1(3) have "lookupCount io1 + i = lookupCount io + i" by simp
        moreover from i dns have "\<exists>a. dnsLookup w (lookupCount io + i) = Inr a" by simp
        ultimately show ?thesis by simp
      next
        case False
        with io1(4) have "lookupCount io1 + i = lookupCount io + Suc i" by simp
        moreover from i have "Suc i \<le> N" by simp
        with dns have "\<exists>a. dnsLookup w (lookupCount io + Suc i) = Inr a" by blast
        ultimately show ?thesis by simp
      qed
    qed
    from makeRequest_rounds [OF m1(1) c b f d, of action body] obtain m2 io2 where
      r: "makeRequest w m1 io1 action body 0 = makeRequest w m2 io2 action body (0 + N)"
      and m2: "resolved m2" "config m2 = config m1"
      and io2: "requestCount io2 = requestCount io1 + N" "lookupCount io2 = lookupCount io1 + N"
        "N = 0 \<longrightarrow> m2 = m1" "0 < N \<longrightarrow> dnsLookup w (lookupCount io2 - 1) = Inr (resolvedHost m2)"
        "steps (trace io2) = steps (trace io1) @ retryRounds action body 0 N"
      by blast
    have addr: "if N = 0 \<and> resolved m then m2 = m
       else dnsLookup w (lookupCount io2 - 1) = Inr (resolvedHost m2)"
    proof (cases "N = 0")
      case True
      with io2(2,3) io1(3,4) show ?thesis by (cases "resolved m") auto
    next
      case False
      with io2(4) show ?thesis by simp
    qed
    show ?thesis
      using enter r m2 m1(2) io2(1,2,5) io1(1,5) addr
      by (intro exI [of _ m2] exI [of _ io2]) simp
  qed
  show ?thesis
  proof (intro conjI impI)
    assume a: "int N \<le> R \<and> requestFetch w (requestCount io + N) = Inr response \<and> ok response"
    from le a obtain m2 io2 where
      r: "makeRequest w m io action body 0 = makeRequest w m2 io2 action body N"
      and m2: "resolved m2" and io2: "requestCount io2 = requestCount io + N"
        "steps (trace io2) = steps (trace io) @ initialSteps m @ retryRounds action body 0 N"
      by blast
    from a io2(1) have "requestFetch w (requestCount io2) = Inr response" by simp
    from makeRequest_last_ok [OF m2 this, of action body N] a obtain io' where
      "makeRequest w m2 io2 action body N = (Inr response, m2, io')"
      "requestCount io' = requestCount io2 + 1"
      "steps (trace io') = steps (trace io2) @ [Send action body]" by blast
    with r io2 show "\<exists>m' io'. makeRequest w m io action body 0 = (Inr response, m', io') \<and>
           requestCount io' = requestCount io + N + 1 \<and>
           steps (trace io') = steps (trace io) @ initialSteps m @
             concat (map (\<lambda>k. [Send action body, Wait (if k \<le> 1014 then Num (1000 * 2 ^ k) else Infinity), Resolve]) [0..<N]) @
             [Send action body]"
      unfolding rounds by (intro exI [of _ m2] exI [of _ io']) simp
  next
    assume a: "int N = R \<and> requestFetch w (requestCount io + N) = Inl err \<and> isConnectionError err"
    then have "int N \<le> R" by simp
    from le [OF this] obtain m2 io2 where
      r: "makeRequest w m io action body 0 = makeRequest w m2 io2 action body N"
      and m2: "resolved m2" "config m2 = config m"
      and io2: "requestCount io2 = requestCount io + N"
        "if N = 0 \<and> resolved m then m2 = m
         else dnsLookup w (lookupCount io2 - 1) = Inr (resolvedHost m2)"
        "steps (trace io2) = steps (trace io) @ initialSteps m @ retryRounds action body 0 N"
      by blast
    from a io2(1) have f: "requestFetch w (requestCount io2) = Inl err" by simp
    from a cfg m2(2) have nl: "\<not> retriesLeft N (retries (config m2))"
      by (simp add: retriesLeft_def)
    from a have ce: "isConnectionError err" by simp
    from makeRequest_last_exhausted [OF m2(1) f ce nl, of action body] obtain io' where
      x: "makeRequest w m2 io2 action body N = (Inl (exhaustedError m2 err), m2, io')"
      "requestCount io' = requestCount io2 + 1" "lookupCount io' = lookupCount io2"
      "steps (trace io') = steps (trace io2) @ [Send action body]" by blast
    have msg: "exhaustedError m2 err =
        newError (''Failed to connect to AMT device after '' @ showInt R @
                     '' attempts. Last error: '' @ message err @ '' ('' @ resolvedHost m2 @
                     '':'' @ showOptInt (port (config m)) @ '')'')"
      using cfg m2(2) by (simp add: exhaustedError_def showOptInt_def)
    show "\<exists>m' io'. makeRequest w m io action body 0 =
             (Inl (newError (''Failed to connect to AMT device after '' @ showInt R @
                     '' attempts. Last error: '' @ message err @ '' ('' @ resolvedHost m' @
                     '':'' @ showOptInt (port (config m)) @ '')'')), m', io') \<and>
           (if N = 0 \<and> resolved m then m' = m
            else dnsLookup w (lookupCount io' - 1) = Inr (resolvedHost m')) \<and>
           requestCount io' = requestCount io + N + 1 \<and>
           steps (trace io') = steps (trace io) @ initialSteps m @
             concat (map (\<lambda>k. [Send action body, Wait (if k \<le> 1014 then Num (1000 * 2 ^ k) else Infinity), Resolve]) [0..<N]) @
             [Send action body]"
      unfolding rounds using r x io2 msg
      by (intro exI [of _ m2] exI [of _ io']) (simp split: if_splits)
  next
    assume a: "int N \<le> R \<and> requestFetch w (requestCount io + N) = Inl err \<and> \<not> isConnectionError err"
    from le a obtain m2 io2 where
      r: "makeRequest w m io action body 0 = makeRequest w m2 io2 action body N"
      and m2: "resolved m2" and io2: "requestCount io2 = requestCount io + N"
        "steps (trace io2) = steps (trace io) @ initialSteps m @ retryRounds action body 0 N"
      by blast
    from a io2(1) have f: "requestFetch w (requestCount io2) = Inl err" by simp
    from a have nc: "\<not> isConnectionError err" by simp
    from makeRequest_last_error [OF m2 f nc, of action body N] obtain io' where
      "makeRequest w m2 io2 action body N = (Inl err, m2, io')"
      "requestCount io' = requestCount io2 + 1"
      "steps (trace io') = steps (trace io2) @ [Send action body]" by blast
    with r io2 show "\<exists>m' io'. makeRequest w m io action body 0 = (Inl err, m', io') \<and>
           requestCount io' = requestCount io + N + 1 \<and>
           steps (trace io') = steps (trace io) @ initialSteps m @
             concat (map (\<lambda>k. [Send action body, Wait (if k \<le> 1014 then Num (1000 * 2 ^ k) else Infinity), Resolve]) [0..<N]) @
             [Send action body]"
      unfolding rounds by (intro exI [of _ m2] exI [of _ io']) simp
  qed
qed

theorem makeRequest_retry_backoff_witness:
  "(\<exists>m' io'. makeRequest
       (sampleWorld (always (Inr ''192.168.1.100'')) (always (Inr (Some sampleChallenge)))
          (failing 2 connectionReset (answer 200 ''done'')))
       sampleManager sampleIo ''act'' ''body'' 0 = (Inr (answer 200 ''done''), m', io') \<and>
     steps (trace io') =
       [Resolve, Send ''act'' ''body'', Wait (Num 1000), Resolve, Send ''act'' ''body'', Wait (Num 2000),
        Resolve, Send ''act'' ''body'']) \<and>
   (\<exists>m' io'. makeRequest
       (sampleWorld (always (Inr ''192.168.1.100'')) (always (Inr (Some sampleChallenge)))
          (always (Inl connectionReset)))
       (sampleManager\<lparr>config := sampleConfig\<lparr>retries := Some 2\<rparr>\<rparr>) sampleIo ''act'' ''body'' 0 =
         (Inl (newError ''Failed to connect to AMT device after 2 attempts. Last error: read ECONNRESET (192.168.1.100:16992)''), m', io') \<and>
     steps (trace io') =
       [Resolve, Send ''act'' ''body'', Wait (Num 1000), Resolve, Send ''act'' ''body'', Wait (Num 2000),
        Resolve, Send ''act'' ''body''])"
proof -
  let ?w1 = "sampleWorld (always (Inr ''192.168.1.100'')) (always (Inr (Some sampleChallenge)))
          (failing 2 connectionReset (answer 200 ''done''))"
  let ?w2 = "sampleWorld (always (Inr ''192.168.1.100'')) (always (Inr (Some sampleChallenge)))
          (always (Inl connectionReset))"
  let ?m2 = "sampleManager\<lparr>config := sampleConfig\<lparr>retries := Some 2\<rparr>\<rparr>"
  have ce: "isConnectionError connectionReset"
    by (simp add: isConnectionError_def connectionReset_def)
  have up2: "[0..<2] = [0, Suc 0]" by (simp add: upt_rec)
  have up1: "[0..<1] = [0]" by (simp add: upt_rec)
  have a: "\<exists>m' io'. makeRequest ?w1 sampleManager sampleIo ''act'' ''body'' 0 = (Inr (answer 200 ''done''), m', io') \<and>
     steps (trace io') =
       [Resolve, Send ''act'' ''body'', Wait (Num 1000), Resolve, Send ''act'' ''body'', Wait (Num 2000),
        Resolve, Send ''act'' ''body'']"
    using makeRequest_retry_backoff [of sampleManager 3 2 ?w1 sampleIo "answer 200 ''done''"
        "''act''" "''body''" connectionReset]
    by (simp add: sampleWorld_sel always_def failing_def ce sampleManager_def sampleConfig_def sampleIo_def answer_def
          ok_def initialSteps_def resolved_def steps_Nil up2) blast
  have b: "\<exists>m' io'. makeRequest ?w2 ?m2 sampleIo ''act'' ''body'' 0 =
         (Inl (newError ''Failed to connect to AMT device after 2 attempts. Last error: read ECONNRESET (192.168.1.100:16992)''), m', io') \<and>
     steps (trace io') =
       [Resolve, Send ''act'' ''body'', Wait (Num 1000), Resolve, Send ''act'' ''body'', Wait (Num 2000),
        Resolve, Send ''act'' ''body'']"
  proof -
    from makeRequest_retry_backoff [of ?m2 2 2 ?w2 sampleIo "answer 200 ''done''"
        "''act''" "''body''" connectionReset]
    obtain m' io' where
      r: "makeRequest ?w2 ?m2 sampleIo ''act'' ''body'' 0 =
             (Inl (newError (''Failed to connect to AMT device after '' @ showInt 2 @
                     '' attempts. Last error: '' @ message connectionReset @ '' ('' @ resolvedHost m' @
                     '':'' @ showOptInt (port (config ?m2)) @ '')'')), m', io')"
      and h: "dnsLookup ?w2 (lookupCount io' - 1) = Inr (resolvedHost m')"
      and s: "steps (trace io') = steps (trace sampleIo) @ initialSteps ?m2 @
             concat (map (\<lambda>k. [Send ''act'' ''body'', Wait (if k \<le> 1014 then Num (1000 * 2 ^ k) else Infinity), Resolve]) [0..<2]) @
             [Send ''act'' ''body'']"
      by (auto simp: sampleWorld_sel always_def failing_def ce sampleManager_def sampleConfig_def)
    from h have h': "resolvedHost m' = ''192.168.1.100''" by (simp add: sampleWorld_sel always_def)
    show ?thesis
      using r s
      by (intro exI [of _ m'] exI [of _ io'])
         (simp add: h' sampleManager_def sampleConfig_def sampleIo_def connectionReset_def
            showInt_def showOptInt_def digitChar_def initialSteps_def resolved_def steps_Nil up2
            showNat_numeral showNat_Suc_0)
  qed
  from a b show ?thesis by blast
qed

text \<open>
  Not every timeout is retried, and not every wait is \<open>2^attempt\<close> seconds. The request
  options carry the configured \<open>timeout\<close>, and when it expires node-fetch raises an error
  of type \<open>request-timeout\<close> without a code, which the \<open>catch\<close> block does not take for a
  connection error: with three retries configured, the call fails with that error after
  the first request, and waits for nothing. And when 1016 retries are configured and
  1016 requests fail with a connection error before one succeeds, the delay of the last
  wait, the one after the attempt 1015, is \<open>Infinity\<close>.
\<close>

theorem makeRequest_request_timeout_counterexample:
  "fst (makeRequest
         (sampleWorld (always (Inr ''192.168.1.100'')) (always (Inr (Some sampleChallenge)))
            (always (Inl requestTimeout)))
         sampleManager sampleIo ''act'' ''body'' 0) = Inl requestTimeout \<and>
   steps (trace (snd (snd (makeRequest
         (sampleWorld (always (Inr ''192.168.1.100'')) (always (Inr (Some sampleChallenge)))
            (always (Inl requestTimeout)))
         sampleManager sampleIo ''act'' ''body'' 0)))) = [Resolve, Send ''act'' ''body''] \<and>
   retries (config sampleManager) = Some 3 \<and>
   reqTimeout (requestOptions sampleManager None ''act'' ''body'') = Some 5000 \<and>
   fst (makeRequest
         (sampleWorld (always (Inr ''192.168.1.100'')) (always (Inr (Some sampleChallenge)))
            (failing 1016 connectionReset (answer 200 ''done'')))
         (sampleManager\<lparr>config := sampleConfig\<lparr>retries := Some 1016\<rparr>\<rparr>)
         sampleIo ''act'' ''body'' 0) = Inr (answer 200 ''done'') \<and>
   steps (trace (snd (snd (makeRequest
         (sampleWorld (always (Inr ''192.168.1.100'')) (always (Inr (Some sampleChallenge)))
            (failing 1016 connectionReset (answer 200 ''done'')))
         (sampleManager\<lparr>config := sampleConfig\<lparr>retries := Some 1016\<rparr>\<rparr>)
         sampleIo ''act'' ''body'' 0)))) ! 3047 = Wait Infinity"
proof -
  let ?w = "sampleWorld (always (Inr ''192.168.1.100'')) (always (Inr (Some sampleChallenge)))
            (always (Inl requestTimeout))"
  have "resolved sampleManager \<or> (\<exists>a. dnsLookup ?w (lookupCount sampleIo) = Inr a)"
    by (simp add: sampleWorld_sel always_def)
  from makeRequest_enter [OF this, of "''act''" "''body''" 0] obtain m1 io1 where
    e: "makeRequest ?w sampleManager sampleIo ''act'' ''body'' 0 = makeRequest ?w m1 io1 ''act'' ''body'' 0"
    and m1: "resolved m1"
    and io1: "steps (trace io1) = steps (trace sampleIo) @ initialSteps sampleManager"
    by blast
  have f: "requestFetch ?w (requestCount io1) = Inl requestTimeout"
    by (simp add: sampleWorld_sel always_def)
  have nc: "\<not> isConnectionError requestTimeout"
    by (simp add: isConnectionError_def requestTimeout_def)
  from makeRequest_last_error [OF m1 f nc, of "''act''" "''body''" 0] obtain io' where
    "makeRequest ?w m1 io1 ''act'' ''body'' 0 = (Inl requestTimeout, m1, io')"
    "steps (trace io') = steps (trace io1) @ [Send ''act'' ''body'']" by blast
  with e io1 have timeout:
    "fst (makeRequest ?w sampleManager sampleIo ''act'' ''body'' 0) = Inl requestTimeout \<and>
     steps (trace (snd (snd (makeRequest ?w sampleManager sampleIo ''act'' ''body'' 0)))) =
       [Resolve, Send ''act'' ''body''] \<and>
     retries (config sampleManager) = Some 3 \<and>
     reqTimeout (requestOptions sampleManager None ''act'' ''body'') = Some 5000"
    by (simp add: sampleIo_def sampleManager_def sampleConfig_def initialSteps_def resolved_def
          steps_Nil requestOptions_def)
  let ?v = "sampleWorld (always (Inr ''192.168.1.100'')) (always (Inr (Some sampleChallenge)))
            (failing 1016 connectionReset (answer 200 ''done''))"
  let ?m = "sampleManager\<lparr>config := sampleConfig\<lparr>retries := Some 1016\<rparr>\<rparr>"
  have "resolved ?m \<or> (\<exists>a. dnsLookup ?v (lookupCount sampleIo) = Inr a)"
    by (simp add: sampleWorld_sel always_def)
  from makeRequest_enter [OF this, of "''act''" "''body''" 0] obtain m2 io2 where
    e2: "makeRequest ?v ?m sampleIo ''act'' ''body'' 0 = makeRequest ?v m2 io2 ''act'' ''body'' 0"
    and m2: "resolved m2" "config m2 = config ?m"
    and io2: "requestCount io2 = requestCount sampleIo"
      "steps (trace io2) = steps (trace sampleIo) @ initialSteps ?m"
    by blast
  have c: "retries (config m2) = Some 1016" using m2(2) by simp
  have b: "int (0 + 1016) \<le> 1016" by simp
  have ce: "isConnectionError connectionReset"
    by (simp add: isConnectionError_def connectionReset_def)
  have fl: "\<forall>i<1016. \<exists>e. requestFetch ?v (requestCount io2 + i) = Inl e \<and> isConnectionError e"
    using io2(1) ce by (simp add: sampleWorld_sel failing_def sampleIo_def)
  have d: "\<forall>i<1016. \<exists>a. dnsLookup ?v (lookupCount io2 + i) = Inr a"
    by (simp add: sampleWorld_sel always_def)
  from makeRequest_rounds [OF m2(1) c b fl d, of "''act''" "''body''"] obtain m3 io3 where
    r: "makeRequest ?v m2 io2 ''act'' ''body'' 0 = makeRequest ?v m3 io3 ''act'' ''body'' (0 + 1016)"
    and m3: "resolved m3"
    and io3: "requestCount io3 = requestCount io2 + 1016"
      "steps (trace io3) = steps (trace io2) @ retryRounds ''act'' ''body'' 0 1016"
    by blast
  have f3: "requestFetch ?v (requestCount io3) = Inr (answer 200 ''done'')"
    using io3(1) io2(1) by (simp add: sampleWorld_sel failing_def sampleIo_def)
  have ok3: "ok (answer 200 ''done'')" by (simp add: ok_def answer_def)
  from makeRequest_last_ok [OF m3 f3 ok3, of "''act''" "''body''" "0 + 1016"] obtain io4 where
    l: "makeRequest ?v m3 io3 ''act'' ''body'' (0 + 1016) = (Inr (answer 200 ''done''), m3, io4)"
    "steps (trace io4) = steps (trace io3) @ [Send ''act'' ''body'']" by blast
  have w: "retryRounds ''act'' ''body'' 0 1016 ! 3046 = Wait Infinity"
    using retryRounds_wait [of 1015 1016 "''act''" "''body''" 0] by (simp add: backoffDelay_value)
  have s: "steps (trace io4) = Resolve # retryRounds ''act'' ''body'' 0 1016 @ [Send ''act'' ''body'']"
    using l(2) io3(2) io2(2)
    by (simp add: sampleIo_def sampleManager_def initialSteps_def resolved_def steps_Nil)
  have "steps (trace io4) ! 3047 = Wait Infinity"
    unfolding s using w by (simp add: nth_append retryRounds_length)
  with e2 r l(1) have infinite:
    "fst (makeRequest ?v ?m sampleIo ''act'' ''body'' 0) = Inr (answer 200 ''done'') \<and>
     steps (trace (snd (snd (makeRequest ?v ?m sampleIo ''act'' ''body'' 0)))) ! 3047 = Wait Infinity"
    by simp
  from timeout infinite show ?thesis by simp
qed

text \<open>
  Claim C3. When the request of \<open>changePowerState\<close> returns a response whose body can be
  read, \<open>changePowerState\<close> returns whether the body contains \<open>ReturnValue>0</\<close>: \<open>true\<close>
  with the substring, \<open>false\<close> without it, and no error either way; so it does when the
  device answers the first request with a status in 200 to 299. It fails only with the
  error of \<open>makeRequest\<close> or with the error of reading the body.
\<close>

theorem changePowerState_success_marker:
  "(fst (makeRequest w m io
           ''http://schemas.dmtf.org/wbem/wscim/1/cim-schema/2/CIM_PowerManagementService/RequestPowerStateChange''
           (createPowerStateChangeRequest powerState) 0) = Inr response \<and>
    bodyText response = Inr text \<longrightarrow>
      fst (changePowerState w m io powerState) = Inr (sublist ''ReturnValue>0</'' text)) \<and>
   ((resolved m \<or> (\<exists>a. dnsLookup w (lookupCount io) = Inr a)) \<and>
    requestFetch w (requestCount io) = Inr response \<and> ok response \<and>
    bodyText response = Inr text \<longrightarrow>
      fst (changePowerState w m io powerState) = Inr (sublist ''ReturnValue>0</'' text)) \<and>
   (fst (changePowerState w m io powerState) = Inl error \<longrightarrow>
      fst (makeRequest w m io
           ''http://schemas.dmtf.org/wbem/wscim/1/cim-schema/2/CIM_PowerManagementService/RequestPowerStateChange''
           (createPowerStateChangeRequest powerState) 0) = Inl error \<or>
      (\<exists>r. fst (makeRequest w m io
           ''http://schemas.dmtf.org/wbem/wscim/1/cim-schema/2/CIM_PowerManagementService/RequestPowerStateChange''
           (createPowerStateChangeRequest powerState) 0) = Inr r \<and> bodyText r = Inl error))"
proof -
  let ?A = "''http://schemas.dmtf.org/wbem/wscim/1/cim-schema/2/CIM_PowerManagementService/RequestPowerStateChange''"
  let ?B = "createPowerStateChangeRequest powerState"
  obtain r m1 io1 where mr: "makeRequest w m io ?A ?B 0 = (r, m1, io1)"
    by (metis prod_cases3)
  have read: "fst (changePowerState w m io powerState) = Inr (sublist ''ReturnValue>0</'' t)"
    if "r = Inr resp" and "bodyText resp = Inr t" for resp t
    using that mr by (simp add: changePowerState_def includesStr_iff)
  show ?thesis
  proof (intro conjI impI)
    assume "fst (makeRequest w m io ?A ?B 0) = Inr response \<and> bodyText response = Inr text"
    with mr have "r = Inr response" and "bodyText response = Inr text" by simp_all
    then show "fst (changePowerState w m io powerState) = Inr (sublist ''ReturnValue>0</'' text)"
      by (rule read)
  next
    assume a: "(resolved m \<or> (\<exists>a. dnsLookup w (lookupCount io) = Inr a)) \<and>
      requestFetch w (requestCount io) = Inr response \<and> ok response \<and>
      bodyText response = Inr text"
    then have "fst (makeRequest w m io ?A ?B 0) = Inr response"
      by (intro makeRequest_first_try) blast+
    with mr a have "r = Inr response" and "bodyText response = Inr text" by simp_all
    then show "fst (changePowerState w m io powerState) = Inr (sublist ''ReturnValue>0</'' text)"
      by (rule read)
  next
    assume e: "fst (changePowerState w m io powerState) = Inl error"
    show "fst (makeRequest w m io ?A ?B 0) = Inl error \<or>
      (\<exists>r. fst (makeRequest w m io ?A ?B 0) = Inr r \<and> bodyText r = Inl error)"
    proof (cases r)
      case (Inl err)
      with e mr show ?thesis by (simp add: changePowerState_def)
    next
      case (Inr resp)
      with e mr have "bodyText resp = Inl error"
        by (cases "bodyText resp") (simp_all add: changePowerState_def)
      with Inr mr show ?thesis by simp
    qed
  qed
qed

theorem changePowerState_success_marker_witness:
  "fst (changePowerState
         (sampleWorld (always (Inr ''192.168.1.100'')) (always (Inr (Some sampleChallenge)))
            (always (Inr (answer 200 ''<g:ReturnValue>0</g:ReturnValue>''))))
         sampleManager sampleIo PowerOn) = Inr True \<and>
   fst (changePowerState
         (sampleWorld (always (Inr ''192.168.1.100'')) (always (Inr (Some sampleChallenge)))
            (always (Inr (answer 200 ''<g:ReturnValue>2</g:ReturnValue>''))))
         sampleManager sampleIo PowerOn) = Inr False"
proof -
  let ?A = "''http://schemas.dmtf.org/wbem/wscim/1/cim-schema/2/CIM_PowerManagementService/RequestPowerStateChange''"
  let ?w = "\<lambda>b. sampleWorld (always (Inr ''192.168.1.100'')) (always (Inr (Some sampleChallenge)))
            (always (Inr (answer 200 b)))"
  have h: "fst (makeRequest (?w b) sampleManager sampleIo ?A (createPowerStateChangeRequest PowerOn) 0) =
      Inr (answer 200 b)" for b
    by (rule makeRequest_first_try) (simp_all add: sampleWorld_sel always_def answer_def ok_def)
  have t: "sublist ''ReturnValue>0</'' ''<g:ReturnValue>0</g:ReturnValue>''"
    unfolding includesStr_iff [symmetric] by simp
  have f: "\<not> sublist ''ReturnValue>0</'' ''<g:ReturnValue>2</g:ReturnValue>''"
    unfolding includesStr_iff [symmetric] by simp
  show ?thesis
    using changePowerState_success_marker [of "?w ''<g:ReturnValue>0</g:ReturnValue>''" sampleManager
        sampleIo PowerOn "answer 200 ''<g:ReturnValue>0</g:ReturnValue>''"
        "''<g:ReturnValue>0</g:ReturnValue>''"]
      changePowerState_success_marker [of "?w ''<g:ReturnValue>2</g:ReturnValue>''" sampleManager
        sampleIo PowerOn "answer 200 ''<g:ReturnValue>2</g:ReturnValue>''"
        "''<g:ReturnValue>2</g:ReturnValue>''"]
      h t f
    by (simp add: answer_def)
qed

text \<open>
  Claim C4. Let \<open>K\<close> be the configured maximum of retries (3 when none is given) less the
  retry count of the call (0 when none is given), the maximum being at most \<open>2^53\<close>, so
  that JavaScript adds 1 to the retry count exactly. If the probe fails \<open>K + 1\<close> times in a
  row, each time because the \<open>fetch\<close> throws or the header \<open>WWW-Authenticate\<close> is missing,
  empty or rejected by the parser, then \<open>getDigestHeader\<close> returns \<open>undefined\<close>, having
  sent \<open>K + 1\<close> probes with a wait after each but the last. The delay handed to
  \<open>setTimeout\<close> after the attempt with retry count \<open>a\<close> is \<open>1000 * 2^a\<close> milliseconds up to
  \<open>a = 1014\<close>, and \<open>Infinity\<close> from \<open>a = 1015\<close> on, where the product
  \<open>Math.pow(2, a) * 1000\<close> is beyond the largest double. If the probe fails \<open>J \<le> K\<close> times
  and then brings a challenge that parses, the call returns a header after \<open>J\<close> such
  waits. The function returns a value in every case: it has no result that is an error.
\<close>

theorem getDigestHeader_retries_then_undefined:
  assumes "optMaxRetries options \<le> 2 ^ 53"
  shows
  "((\<forall>i\<le>nat (optMaxRetries options - int (optRetryCount options)).
        challengeFails w (challengeCount io + i)) \<longrightarrow>
      (\<exists>io'. getDigestHeader w options io = (None, io') \<and>
         challengeCount io' =
           challengeCount io + nat (optMaxRetries options - int (optRetryCount options)) + 1 \<and>
         trace io' = trace io @
           concat (map (\<lambda>i. [probe options, ChallengeWait (if optRetryCount options + i \<le> 1014
                                              then Num (1000 * 2 ^ (optRetryCount options + i))
                                              else Infinity)])
                     [0..<nat (optMaxRetries options - int (optRetryCount options))]) @
           [probe options])) \<and>
   ((\<forall>i<J. challengeFails w (challengeCount io + i)) \<and>
    int (optRetryCount options + J) \<le> optMaxRetries options \<and>
    \<not> challengeFails w (challengeCount io + J) \<longrightarrow>
      (\<exists>h io'. getDigestHeader w options io = (Some h, io') \<and>
         challengeCount io' = challengeCount io + J + 1 \<and>
         trace io' = trace io @
           concat (map (\<lambda>i. [probe options, ChallengeWait (if optRetryCount options + i \<le> 1014
                                              then Num (1000 * 2 ^ (optRetryCount options + i))
                                              else Infinity)])
                     [0..<J]) @
           [probe options]))"
proof -
  have rounds: "concat (map (\<lambda>i. [probe options, ChallengeWait (if optRetryCount options + i \<le> 1014
                                              then Num (1000 * 2 ^ (optRetryCount options + i))
                                              else Infinity)])
                     [0..<n]) = probeRounds options n" for n
    by (simp add: probeRounds_def backoffDelay_value)
  show ?thesis
  proof (intro conjI impI)
    assume "\<forall>i\<le>nat (optMaxRetries options - int (optRetryCount options)).
        challengeFails w (challengeCount io + i)"
    from getDigestHeader_exhausted [OF this refl]
    show "\<exists>io'. getDigestHeader w options io = (None, io') \<and>
         challengeCount io' =
           challengeCount io + nat (optMaxRetries options - int (optRetryCount options)) + 1 \<and>
         trace io' = trace io @
           concat (map (\<lambda>i. [probe options, ChallengeWait (if optRetryCount options + i \<le> 1014
                                              then Num (1000 * 2 ^ (optRetryCount options + i))
                                              else Infinity)])
                     [0..<nat (optMaxRetries options - int (optRetryCount options))]) @
           [probe options]"
      unfolding rounds by blast
  next
    assume a: "(\<forall>i<J. challengeFails w (challengeCount io + i)) \<and>
      int (optRetryCount options + J) \<le> optMaxRetries options \<and>
      \<not> challengeFails w (challengeCount io + J)"
    then have nf: "\<not> challengeFails w (challengeCount io + J)" by blast
    then obtain c where c1: "challengeFetch w (challengeCount io + J) = Inr (Some c)" "c \<noteq> []"
      and np: "\<not> isl (parseAuthHeader c)"
      by (auto simp: challengeFails_def split: sum.splits option.splits)
    from np obtain p where "parseAuthHeader c = Inr p" by (cases "parseAuthHeader c") auto
    note c = c1 this
    from a have f: "\<forall>i<J. challengeFails w (challengeCount io + i)"
      and le: "int (optRetryCount options + J) \<le> optMaxRetries options" by blast+
    from getDigestHeader_succeeds [OF f le c]
    show "\<exists>h io'. getDigestHeader w options io = (Some h, io') \<and>
         challengeCount io' = challengeCount io + J + 1 \<and>
         trace io' = trace io @
           concat (map (\<lambda>i. [probe options, ChallengeWait (if optRetryCount options + i \<le> 1014
                                              then Num (1000 * 2 ^ (optRetryCount options + i))
                                              else Infinity)])
                     [0..<J]) @
           [probe options]"
      unfolding rounds by blast
  qed
qed

theorem getDigestHeader_retries_then_undefined_witness:
  "(\<exists>io'. getDigestHeader
        (sampleWorld (always (Inr ''192.168.1.100'')) (always (Inr None)) (always (Inr (answer 200 ''done''))))
        (digestOptionsOf sampleResolved) sampleIo = (None, io') \<and>
      trace io' =
        [probe (digestOptionsOf sampleResolved), ChallengeWait (Num 1000),
         probe (digestOptionsOf sampleResolved), ChallengeWait (Num 2000),
         probe (digestOptionsOf sampleResolved), ChallengeWait (Num 4000),
         probe (digestOptionsOf sampleResolved)]) \<and>
   (\<exists>h io'. getDigestHeader
        (sampleWorld (always (Inr ''192.168.1.100'')) (lateChallenge 2 sampleChallenge)
           (always (Inr (answer 200 ''done''))))
        (digestOptionsOf sampleResolved) sampleIo = (Some h, io') \<and>
      trace io' =
        [probe (digestOptionsOf sampleResolved), ChallengeWait (Num 1000),
         probe (digestOptionsOf sampleResolved), ChallengeWait (Num 2000),
         probe (digestOptionsOf sampleResolved)]) \<and>
   probe (digestOptionsOf sampleResolved) =
     ChallengeFetch ''http://192.168.1.100:16992/wsman'' ''POST''
       [(''User-Agent'', ''node-fetch''), (''Accept'', ''*/*'')]"
proof -
  have up: "[0..<3] = [0, Suc 0, 2]" "[0..<2] = [0, Suc 0]" by (simp_all add: upt_rec)
  have o: "optMaxRetries (digestOptionsOf sampleResolved) = 3"
    "optRetryCount (digestOptionsOf sampleResolved) = 0"
    by (simp_all add: optMaxRetries_def optRetryCount_def digestOptionsOf_def sampleResolved_def
          sampleManager_def sampleConfig_def)
  have a: "\<exists>io'. getDigestHeader
        (sampleWorld (always (Inr ''192.168.1.100'')) (always (Inr None)) (always (Inr (answer 200 ''done''))))
        (digestOptionsOf sampleResolved) sampleIo = (None, io') \<and>
      trace io' =
        [probe (digestOptionsOf sampleResolved), ChallengeWait (Num 1000),
         probe (digestOptionsOf sampleResolved), ChallengeWait (Num 2000),
         probe (digestOptionsOf sampleResolved), ChallengeWait (Num 4000),
         probe (digestOptionsOf sampleResolved)]"
    using getDigestHeader_retries_then_undefined [of "digestOptionsOf sampleResolved"
        "sampleWorld (always (Inr ''192.168.1.100'')) (always (Inr None)) (always (Inr (answer 200 ''done'')))"
        sampleIo 0]
    by (simp add: o up challengeFails_def sampleWorld_sel always_def sampleIo_def) blast
  have b: "\<exists>h io'. getDigestHeader
        (sampleWorld (always (Inr ''192.168.1.100'')) (lateChallenge 2 sampleChallenge)
           (always (Inr (answer 200 ''done''))))
        (digestOptionsOf sampleResolved) sampleIo = (Some h, io') \<and>
      trace io' =
        [probe (digestOptionsOf sampleResolved), ChallengeWait (Num 1000),
         probe (digestOptionsOf sampleResolved), ChallengeWait (Num 2000),
         probe (digestOptionsOf sampleResolved)]"
    using getDigestHeader_retries_then_undefined [of "digestOptionsOf sampleResolved"
        "sampleWorld (always (Inr ''192.168.1.100'')) (lateChallenge 2 sampleChallenge)
           (always (Inr (answer 200 ''done'')))"
        sampleIo 2] sampleChallenge_ok
    by (simp add: o up challengeFails_def sampleWorld_sel lateChallenge_def sampleIo_def) blast
  have c: "probe (digestOptionsOf sampleResolved) =
     ChallengeFetch ''http://192.168.1.100:16992/wsman'' ''POST''
       [(''User-Agent'', ''node-fetch''), (''Accept'', ''*/*'')]"
    by (simp add: probe_def probeHeaders_def optMethod_def optHeaders_def digestOptionsOf_def
          sampleResolved_def sampleManager_def)
  from a b c show ?thesis by blast
qed

text \<open>
  The wait is not always \<open>2^attempt\<close> seconds. Called with the retry count 1015 and the
  maximum 1016 while the device sends no challenge, \<open>getDigestHeader\<close> hands \<open>Infinity\<close> to
  \<open>setTimeout\<close> between its two probes.
\<close>

theorem getDigestHeader_infinite_delay_counterexample:
  "fst (getDigestHeader
         (sampleWorld (always (Inr ''192.168.1.100'')) (always (Inr None)) (always (Inr (answer 200 ''done''))))
         ((digestOptionsOf sampleResolved)\<lparr>retryCount := Some 1015, maxRetries := Some 1016\<rparr>)
         sampleIo) = None \<and>
   trace (snd (getDigestHeader
         (sampleWorld (always (Inr ''192.168.1.100'')) (always (Inr None)) (always (Inr (answer 200 ''done''))))
         ((digestOptionsOf sampleResolved)\<lparr>retryCount := Some 1015, maxRetries := Some 1016\<rparr>)
         sampleIo)) =
     [ChallengeFetch ''http://192.168.1.100:16992/wsman'' ''POST''
        [(''User-Agent'', ''node-fetch''), (''Accept'', ''*/*'')],
      ChallengeWait Infinity,
      ChallengeFetch ''http://192.168.1.100:16992/wsman'' ''POST''
        [(''User-Agent'', ''node-fetch''), (''Accept'', ''*/*'')]]"
proof -
  let ?w = "sampleWorld (always (Inr ''192.168.1.100'')) (always (Inr None)) (always (Inr (answer 200 ''done'')))"
  let ?o = "(digestOptionsOf sampleResolved)\<lparr>retryCount := Some 1015, maxRetries := Some 1016\<rparr>"
  have o: "optMaxRetries ?o = 1016" "optRetryCount ?o = 1015"
    by (simp_all add: optMaxRetries_def optRetryCount_def)
  have p: "probe ?o = ChallengeFetch ''http://192.168.1.100:16992/wsman'' ''POST''
        [(''User-Agent'', ''node-fetch''), (''Accept'', ''*/*'')]"
    by (simp add: probe_def probeHeaders_def optMethod_def optHeaders_def digestOptionsOf_def
          sampleResolved_def sampleManager_def)
  have f: "\<forall>i\<le>Suc 0. challengeFails ?w (challengeCount sampleIo + i)"
    by (simp add: challengeFails_def sampleWorld_sel always_def)
  have k: "Suc 0 = nat (optMaxRetries ?o - int (optRetryCount ?o))"
    by (simp add: o)
  have r: "probeRounds ?o (Suc 0) = [probe ?o, ChallengeWait Infinity]"
    by (simp add: probeRounds_def backoffDelay_value o)
  from getDigestHeader_exhausted [OF f k] obtain io' where
    "getDigestHeader ?w ?o sampleIo = (None, io')"
    "trace io' = trace sampleIo @ probeRounds ?o (Suc 0) @ [probe ?o]" by blast
  then show ?thesis by (simp add: r p sampleIo_def)
qed

text \<open>
  Claim C5. Let the response to the request of \<open>makeRequest\<close> have a status outside 200
  to 299. If its body can be read, the call fails with the error whose message carries
  the status, the status text and that body; exactly one request has been sent and no
  wait has been started, whatever the retry count and the configured maximum are. If
  reading the body fails, the error of the read takes the place of that error in the
  \<open>catch\<close> block. When it is no connection error, the call fails with it after the one
  request. When it is a connection error (code \<open>ECONNRESET\<close>, \<open>ETIMEDOUT\<close> or
  \<open>ECONNREFUSED\<close>, or type \<open>system\<close>), the call fails with the error \<open>Failed to connect\<close>
  if no retry is left, and otherwise waits, resolves the host again and retries.
\<close>

theorem makeRequest_status_error_body_read:
  assumes "resolved m \<or> (\<exists>a. dnsLookup w (lookupCount io) = Inr a)"
    and "requestFetch w (requestCount io) = Inr response"
    and "status response < 200 \<or> 300 \<le> status response"
  shows
    "(bodyText response = Inr responseText \<longrightarrow>
        (\<exists>m' io'. makeRequest w m io action body n =
           (Inl (newError (''AMT request failed: '' @ showNat (status response) @ '' '' @
                   statusText response @ ''\<newline>Response: '' @ responseText)), m', io') \<and>
         requestCount io' = requestCount io + 1 \<and>
         steps (trace io') = steps (trace io) @ initialSteps m @ [Send action body])) \<and>
     (bodyText response = Inl e \<and> \<not> isConnectionError e \<longrightarrow>
        (\<exists>m' io'. makeRequest w m io action body n = (Inl e, m', io') \<and>
         requestCount io' = requestCount io + 1 \<and>
         steps (trace io') = steps (trace io) @ initialSteps m @ [Send action body])) \<and>
     (bodyText response = Inl e \<and> isConnectionError e \<and> \<not> retriesLeft n (retries (config m)) \<longrightarrow>
        (\<exists>m' io'. makeRequest w m io action body n = (Inl (exhaustedError m' e), m', io') \<and>
         requestCount io' = requestCount io + 1 \<and>
         steps (trace io') = steps (trace io) @ initialSteps m @ [Send action body])) \<and>
     (bodyText response = Inl e \<and> isConnectionError e \<and> retriesLeft n (retries (config m)) \<longrightarrow>
        (\<exists>r m' io' rest. makeRequest w m io action body n = (r, m', io') \<and>
         steps (trace io') = steps (trace io) @ initialSteps m @
           [Send action body, Wait (if n \<le> 1014 then Num (1000 * 2 ^ n) else Infinity), Resolve] @
           rest))"
proof -
  from makeRequest_enter [OF assms(1), of action body n] obtain m1 io1 where
    e: "makeRequest w m io action body n = makeRequest w m1 io1 action body n"
    and m1: "resolved m1" "config m1 = config m"
    and io1: "requestCount io1 = requestCount io"
      "steps (trace io1) = steps (trace io) @ initialSteps m"
    by blast
  from assms(2) io1 have f: "requestFetch w (requestCount io1) = Inr response" by simp
  from assms(3) have nok: "\<not> ok response" by (auto simp: ok_def)
  show ?thesis
  proof (intro conjI impI)
    assume b: "bodyText response = Inr responseText"
    from makeRequest_last_status [OF m1(1) f nok b, of action body n] obtain io' where
      "makeRequest w m1 io1 action body n =
             (Inl (newError (''AMT request failed: '' @ showNat (status response) @ '' '' @
                     statusText response @ [CHR 0x0A] @ ''Response: '' @ responseText)), m1, io')"
      "requestCount io' = requestCount io1 + 1"
      "steps (trace io') = steps (trace io1) @ [Send action body]" by blast
    with e io1 show "\<exists>m' io'. makeRequest w m io action body n =
           (Inl (newError (''AMT request failed: '' @ showNat (status response) @ '' '' @
                   statusText response @ ''\<newline>Response: '' @ responseText)), m', io') \<and>
         requestCount io' = requestCount io + 1 \<and>
         steps (trace io') = steps (trace io) @ initialSteps m @ [Send action body]"
      by (intro exI [of _ m1] exI [of _ io']) simp
  next
    assume b: "bodyText response = Inl e \<and> \<not> isConnectionError e"
    then have b1: "bodyText response = Inl e" and b2: "\<not> isConnectionError e" by simp_all
    from makeRequest_unread_error [OF m1(1) f nok b1 b2, of action body n] obtain io' where
      "makeRequest w m1 io1 action body n = (Inl e, m1, io')"
      "requestCount io' = requestCount io1 + 1"
      "steps (trace io') = steps (trace io1) @ [Send action body]" by blast
    with e io1 show "\<exists>m' io'. makeRequest w m io action body n = (Inl e, m', io') \<and>
         requestCount io' = requestCount io + 1 \<and>
         steps (trace io') = steps (trace io) @ initialSteps m @ [Send action body]"
      by (intro exI [of _ m1] exI [of _ io']) simp
  next
    assume b: "bodyText response = Inl e \<and> isConnectionError e \<and> \<not> retriesLeft n (retries (config m))"
    then have b1: "bodyText response = Inl e" and b2: "isConnectionError e"
      and b3: "\<not> retriesLeft n (retries (config m1))" using m1(2) by simp_all
    from makeRequest_unread_exhausted [OF m1(1) f nok b1 b2 b3, of action body] obtain io' where
      "makeRequest w m1 io1 action body n = (Inl (exhaustedError m1 e), m1, io')"
      "requestCount io' = requestCount io1 + 1"
      "steps (trace io') = steps (trace io1) @ [Send action body]" by blast
    with e io1 show "\<exists>m' io'. makeRequest w m io action body n = (Inl (exhaustedError m' e), m', io') \<and>
         requestCount io' = requestCount io + 1 \<and>
         steps (trace io') = steps (trace io) @ initialSteps m @ [Send action body]"
      by (intro exI [of _ m1] exI [of _ io']) simp
  next
    assume b: "bodyText response = Inl e \<and> isConnectionError e \<and> retriesLeft n (retries (config m))"
    then have b1: "bodyText response = Inl e" "isConnectionError e"
      and b3: "retriesLeft n (retries (config m1))" using m1(2) by simp_all
    from makeRequest_unread_retried [OF m1(1) f nok b1 b3, of action body] obtain r m' io' rest where
      "makeRequest w m1 io1 action body n = (r, m', io')"
      "steps (trace io') =
         steps (trace io1) @ [Send action body, Wait (backoffDelay n), Resolve] @ rest" by blast
    with e io1 show "\<exists>r m' io' rest. makeRequest w m io action body n = (r, m', io') \<and>
         steps (trace io') = steps (trace io) @ initialSteps m @
           [Send action body, Wait (if n \<le> 1014 then Num (1000 * 2 ^ n) else Infinity), Resolve] @
           rest"
      by (intro exI [of _ r] exI [of _ m'] exI [of _ io'] exI [of _ rest])
         (simp add: backoffDelay_value)
  qed
qed

theorem makeRequest_status_error_body_read_witness:
  "(\<exists>m' io'. makeRequest
       (sampleWorld (always (Inr ''192.168.1.100'')) (always (Inr (Some sampleChallenge)))
          (always (Inr (answer 401 ''unauthorized''))))
       sampleManager sampleIo ''act'' ''body'' 0 =
         (Inl (newError ''AMT request failed: 401 Unauthorized\<newline>Response: unauthorized''), m', io') \<and>
     requestCount io' = 1 \<and>
     steps (trace io') = [Resolve, Send ''act'' ''body'']) \<and>
   (\<exists>r m' io' rest. makeRequest
       (sampleWorld (always (Inr ''192.168.1.100'')) (always (Inr (Some sampleChallenge)))
          (always (Inr (unreadable 401))))
       sampleManager sampleIo ''act'' ''body'' 0 = (r, m', io') \<and>
     steps (trace io') = [Resolve, Send ''act'' ''body'', Wait (Num 1000), Resolve] @ rest)"
proof -
  have a: "\<exists>m' io'. makeRequest
       (sampleWorld (always (Inr ''192.168.1.100'')) (always (Inr (Some sampleChallenge)))
          (always (Inr (answer 401 ''unauthorized''))))
       sampleManager sampleIo ''act'' ''body'' 0 =
         (Inl (newError ''AMT request failed: 401 Unauthorized\<newline>Response: unauthorized''), m', io') \<and>
     requestCount io' = 1 \<and>
     steps (trace io') = [Resolve, Send ''act'' ''body'']"
    using makeRequest_status_error_body_read [of sampleManager
      "sampleWorld (always (Inr ''192.168.1.100'')) (always (Inr (Some sampleChallenge)))
          (always (Inr (answer 401 ''unauthorized'')))" sampleIo "answer 401 ''unauthorized''"
      "''unauthorized''" "''act''" "''body''" 0 bodyAborted]
    by (simp add: sampleWorld_sel always_def failing_def sampleManager_def sampleIo_def answer_def initialSteps_def
        resolved_def steps_Nil showNat_numeral digitChar_def)
  have ce: "isConnectionError bodyAborted"
    by (simp add: isConnectionError_def bodyAborted_def)
  have b: "\<exists>r m' io' rest. makeRequest
       (sampleWorld (always (Inr ''192.168.1.100'')) (always (Inr (Some sampleChallenge)))
          (always (Inr (unreadable 401))))
       sampleManager sampleIo ''act'' ''body'' 0 = (r, m', io') \<and>
     steps (trace io') = [Resolve, Send ''act'' ''body'', Wait (Num 1000), Resolve] @ rest"
    using makeRequest_status_error_body_read [of sampleManager
      "sampleWorld (always (Inr ''192.168.1.100'')) (always (Inr (Some sampleChallenge)))
          (always (Inr (unreadable 401)))" sampleIo "unreadable 401"
      "''unauthorized''" "''act''" "''body''" 0 bodyAborted]
    by (simp add: sampleWorld_sel always_def sampleManager_def sampleConfig_def sampleIo_def
        unreadable_def initialSteps_def resolved_def steps_Nil ce retriesLeft_def)
  from a b show ?thesis by blast
qed

text \<open>
  A response outside 200 to 299 does not always end the call with an error that carries
  the status and the body. The device answers the first request with the status 401 and a
  body whose stream breaks while it is read, and the next request with the status 200:
  the error of the read has the type \<open>system\<close>, so the call waits a second, resolves the
  host again, sends the request a second time and returns the second response.
\<close>

theorem makeRequest_unread_body_retried_counterexample:
  "fst (makeRequest
         (sampleWorld (always (Inr ''192.168.1.100'')) (always (Inr (Some sampleChallenge)))
            (answers 1 (unreadable 401) (answer 200 ''done'')))
         sampleManager sampleIo ''act'' ''body'' 0) = Inr (answer 200 ''done'') \<and>
   steps (trace (snd (snd (makeRequest
         (sampleWorld (always (Inr ''192.168.1.100'')) (always (Inr (Some sampleChallenge)))
            (answers 1 (unreadable 401) (answer 200 ''done'')))
         sampleManager sampleIo ''act'' ''body'' 0)))) =
     [Resolve, Send ''act'' ''body'', Wait (Num 1000), Resolve, Send ''act'' ''body''] \<and>
   status (unreadable 401) = 401"
proof -
  let ?w = "sampleWorld (always (Inr ''192.168.1.100'')) (always (Inr (Some sampleChallenge)))
            (answers 1 (unreadable 401) (answer 200 ''done''))"
  have "resolved sampleManager \<or> (\<exists>a. dnsLookup ?w (lookupCount sampleIo) = Inr a)"
    by (simp add: sampleWorld_sel always_def)
  from makeRequest_enter [OF this, of "''act''" "''body''" 0] obtain m1 io1 where
    e: "makeRequest ?w sampleManager sampleIo ''act'' ''body'' 0 = makeRequest ?w m1 io1 ''act'' ''body'' 0"
    and m1: "resolved m1" "config m1 = config sampleManager"
    and io1: "requestCount io1 = requestCount sampleIo"
      "steps (trace io1) = steps (trace sampleIo) @ initialSteps sampleManager"
    by blast
  have f: "requestFetch ?w (requestCount io1) = Inr (unreadable 401)"
    using io1(1) by (simp add: sampleWorld_sel answers_def sampleIo_def)
  have nok: "\<not> ok (unreadable 401)" by (simp add: ok_def unreadable_def)
  have b: "bodyText (unreadable 401) = Inl bodyAborted" by (simp add: unreadable_def)
  have ce: "isConnectionError bodyAborted"
    by (simp add: isConnectionError_def bodyAborted_def)
  have left: "retriesLeft 0 (retries (config m1))"
    using m1(2) by (simp add: retriesLeft_def sampleManager_def sampleConfig_def)
  have dns: "dnsLookup ?w (lookupCount io1) = Inr ''192.168.1.100''"
    by (simp add: sampleWorld_sel always_def)
  from makeRequest_unread_round [OF m1(1) f nok b ce left dns, of "''act''" "''body''"]
  obtain m2 io2 where
    r: "makeRequest ?w m1 io1 ''act'' ''body'' 0 = makeRequest ?w m2 io2 ''act'' ''body'' (0 + 1)"
    and m2: "resolved m2" and io2: "requestCount io2 = requestCount io1 + 1"
      "steps (trace io2) = steps (trace io1) @ [Send ''act'' ''body'', Wait (backoffDelay 0), Resolve]"
    by blast
  have f2: "requestFetch ?w (requestCount io2) = Inr (answer 200 ''done'')"
    using io2(1) io1(1) by (simp add: sampleWorld_sel answers_def sampleIo_def)
  have ok2: "ok (answer 200 ''done'')" by (simp add: ok_def answer_def)
  from makeRequest_last_ok [OF m2 f2 ok2, of "''act''" "''body''" "0 + 1"] obtain io' where
    "makeRequest ?w m2 io2 ''act'' ''body'' (0 + 1) = (Inr (answer 200 ''done''), m2, io')"
    "steps (trace io') = steps (trace io2) @ [Send ''act'' ''body'']" by blast
  with e r io1 io2 show ?thesis
    by (simp add: sampleIo_def sampleManager_def initialSteps_def resolved_def steps_Nil
          backoffDelay_value unreadable_def)
qed

text \<open>
  Claim C6. \<open>captured h k\<close> is the value of the last pair with key \<open>k\<close> that the pattern
  captures in the challenge \<open>h\<close>. If \<open>realm\<close> or \<open>nonce\<close> is not captured, \<open>parseAuthHeader\<close>
  fails with the error \<open>Missing required digest authentication parameters\<close>; if both are
  captured, it returns a challenge that holds exactly these two values. A challenge it
  returns has a non-empty realm and a non-empty nonce, both captured. For a challenge in
  the standard syntax, \<open>Digest\<close> followed by pairs \<^verbatim>\<open>key="value"\<close>, the captured pairs are
  the pairs written: the call fails when no pair has the key \<open>realm\<close> or none the key
  \<open>nonce\<close>, and returns the values of the last such pairs otherwise.
\<close>

theorem parseAuthHeader_realm_nonce:
  "(captured h ''realm'' = None \<or> captured h ''nonce'' = None \<longrightarrow>
      parseAuthHeader h = Inl (newError ''Missing required digest authentication parameters'')) \<and>
   (captured h ''realm'' = Some r \<and> captured h ''nonce'' = Some n \<longrightarrow>
      (\<exists>p. parseAuthHeader h = Inr p \<and> realm p = r \<and> nonce p = n)) \<and>
   (parseAuthHeader h = Inr p \<longrightarrow>
      realm p \<noteq> [] \<and> nonce p \<noteq> [] \<and>
      captured h ''realm'' = Some (realm p) \<and> captured h ''nonce'' = Some (nonce p)) \<and>
   (list_all wellFormedPair kvs \<and>
    (map_of (rev kvs) ''realm'' = None \<or> map_of (rev kvs) ''nonce'' = None) \<longrightarrow>
      parseAuthHeader (''Digest '' @ renderPairs kvs) =
        Inl (newError ''Missing required digest authentication parameters'')) \<and>
   (list_all wellFormedPair kvs \<and>
    map_of (rev kvs) ''realm'' = Some r \<and> map_of (rev kvs) ''nonce'' = Some n \<longrightarrow>
      (\<exists>p. parseAuthHeader (''Digest '' @ renderPairs kvs) = Inr p \<and> realm p = r \<and> nonce p = n))"
proof (intro conjI impI)
  assume "captured h ''realm'' = None \<or> captured h ''nonce'' = None"
  with parseAuthHeader_captured [of h r n p]
  show "parseAuthHeader h = Inl (newError ''Missing required digest authentication parameters'')"
    by blast
next
  assume "captured h ''realm'' = Some r \<and> captured h ''nonce'' = Some n"
  with parseAuthHeader_captured [of h r n p]
  show "\<exists>p. parseAuthHeader h = Inr p \<and> realm p = r \<and> nonce p = n" by blast
next
  assume a: "parseAuthHeader h = Inr p"
  with parseAuthHeader_captured [of h r n p]
  show "realm p \<noteq> []" "nonce p \<noteq> []" "captured h ''realm'' = Some (realm p)"
    "captured h ''nonce'' = Some (nonce p)" by blast+
next
  let ?h = "''Digest '' @ renderPairs kvs"
  assume a: "list_all wellFormedPair kvs \<and>
    (map_of (rev kvs) ''realm'' = None \<or> map_of (rev kvs) ''nonce'' = None)"
  then have "captured ?h ''realm'' = None \<or> captured ?h ''nonce'' = None"
    by (simp only: captured_standard_syntax)
  with parseAuthHeader_captured [of ?h r n p]
  show "parseAuthHeader ?h = Inl (newError ''Missing required digest authentication parameters'')"
    by blast
next
  let ?h = "''Digest '' @ renderPairs kvs"
  assume a: "list_all wellFormedPair kvs \<and>
    map_of (rev kvs) ''realm'' = Some r \<and> map_of (rev kvs) ''nonce'' = Some n"
  then have "captured ?h ''realm'' = Some r \<and> captured ?h ''nonce'' = Some n"
    by (simp only: captured_standard_syntax)
  with parseAuthHeader_captured [of ?h r n p]
  show "\<exists>p. parseAuthHeader ?h = Inr p \<and> realm p = r \<and> nonce p = n" by blast
qed

theorem parseAuthHeader_realm_nonce_witness:
  \<open>(\<exists>p. parseAuthHeader sampleChallenge = Inr p \<and>
      realm p = ''Digest:A4720000000000000000000000000000'' \<and>
      nonce p = ''jH2uAQAAAAAcyGIlXY8OFspUmTa5h5zS'') \<and>
   parseAuthHeader ''Digest realm="amt", qop="auth"'' =
     Inl (newError ''Missing required digest authentication parameters'') \<and>
   parseAuthHeader ''Digest realm="amt", nonce=""'' =
     Inl (newError ''Missing required digest authentication parameters'') \<and>
   (\<exists>p. parseAuthHeader (''Digest '' @ renderPairs [(''realm'', ''amt''), (''nonce'', ''abc'')]) = Inr p \<and>
      realm p = ''amt'' \<and> nonce p = ''abc'') \<and>
   parseAuthHeader (''Digest '' @ renderPairs [(''realm'', ''amt''), (''qop'', ''auth'')]) =
     Inl (newError ''Missing required digest authentication parameters'')\<close>
proof -
  have c: "captures sampleChallenge =
      [(''realm'', ''Digest:A4720000000000000000000000000000''),
       (''nonce'', ''jH2uAQAAAAAcyGIlXY8OFspUmTa5h5zS''), (''stale'', ''false''), (''qop'', ''auth'')]"
    by (simp add: sampleChallenge_def captures.simps matchPairAt_def isWordChar_def notQuote_def Let_def)
  have r: "captured sampleChallenge ''realm'' = Some ''Digest:A4720000000000000000000000000000''"
    and n: "captured sampleChallenge ''nonce'' = Some ''jH2uAQAAAAAcyGIlXY8OFspUmTa5h5zS''"
    by (simp_all add: captured_def c)
  have m1: \<open>captured ''Digest realm="amt", qop="auth"'' ''nonce'' = None\<close>
    by (simp add: captured_def captures.simps matchPairAt_def isWordChar_def notQuote_def Let_def)
  have m2: \<open>captured ''Digest realm="amt", nonce=""'' ''nonce'' = None\<close>
    by (simp add: captured_def captures.simps matchPairAt_def isWordChar_def notQuote_def Let_def)
  have w1: "list_all wellFormedPair [(''realm'', ''amt''), (''nonce'', ''abc'')]"
    and w2: "list_all wellFormedPair [(''realm'', ''amt''), (''qop'', ''auth'')]"
    by (simp_all add: wellFormedPair_def isWordChar_def notQuote_def)
  have k1: "map_of (rev [(''realm'', ''amt''), (''nonce'', ''abc'')]) ''realm'' = Some ''amt''"
    "map_of (rev [(''realm'', ''amt''), (''nonce'', ''abc'')]) ''nonce'' = Some ''abc''"
    and k2: "map_of (rev [(''realm'', ''amt''), (''qop'', ''auth'')]) ''nonce'' = None"
    by simp_all
  have a: "\<exists>p. parseAuthHeader sampleChallenge = Inr p \<and>
      realm p = ''Digest:A4720000000000000000000000000000'' \<and>
      nonce p = ''jH2uAQAAAAAcyGIlXY8OFspUmTa5h5zS''"
    using parseAuthHeader_realm_nonce [of sampleChallenge "''Digest:A4720000000000000000000000000000''"
      "''jH2uAQAAAAAcyGIlXY8OFspUmTa5h5zS''"] r n by blast
  have b: \<open>parseAuthHeader ''Digest realm="amt", qop="auth"'' =
     Inl (newError ''Missing required digest authentication parameters'')\<close>
    using parseAuthHeader_realm_nonce [of \<open>''Digest realm="amt", qop="auth"''\<close>] m1 by blast
  have c': \<open>parseAuthHeader ''Digest realm="amt", nonce=""'' =
     Inl (newError ''Missing required digest authentication parameters'')\<close>
    using parseAuthHeader_realm_nonce [of \<open>''Digest realm="amt", nonce=""''\<close>] m2 by blast
  have d: "\<exists>p. parseAuthHeader (''Digest '' @ renderPairs [(''realm'', ''amt''), (''nonce'', ''abc'')]) = Inr p \<and>
      realm p = ''amt'' \<and> nonce p = ''abc''"
    using parseAuthHeader_realm_nonce [of _ "''amt''" "''abc''" _ "[(''realm'', ''amt''), (''nonce'', ''abc'')]"]
      w1 k1 by blast
  have e: "parseAuthHeader (''Digest '' @ renderPairs [(''realm'', ''amt''), (''qop'', ''auth'')]) =
     Inl (newError ''Missing required digest authentication parameters'')"
    using parseAuthHeader_realm_nonce [of _ _ _ _ "[(''realm'', ''amt''), (''qop'', ''auth'')]"]
      w2 k2 by blast
  from a b c' d e show ?thesis by (intro conjI)
qed

text \<open>
  Claim C7, as amended. When the request of \<open>getPowerState\<close> returns a response whose body
  can be read, and the leftmost element \<^verbatim>\<open><r:PowerState>\<close> with a non-empty run of decimal
  digits as content holds \<open>digits\<close>, then \<open>getPowerState\<close> returns the Number value of the
  integer the digits denote; that is the integer itself when it is at most \<open>2^53\<close>. When
  the body has no such element, \<open>getPowerState\<close> returns \<open>-1\<close> and no error.
\<close>

theorem getPowerState_first_element:
  assumes "fst (makeRequest w m (io\<lparr>uuidCount := uuidCount io + 1\<rparr>)
             ''http://schemas.dmtf.org/wbem/wscim/1/wsman/Enumerate''
             (createGetPowerStateRequest (randomUUID w (uuidCount io))) 0) = Inr response"
    and "bodyText response = Inr text"
  shows "(powerStateElementAt text i digits \<and> (\<forall>j<i. \<forall>ds. \<not> powerStateElementAt text j ds) \<longrightarrow>
            fst (getPowerState w m io) = Inr (toNumber (decimalValue digits)) \<and>
            (decimalValue digits \<le> 2 ^ 53 \<longrightarrow>
               fst (getPowerState w m io) = Inr (Num (int (decimalValue digits))))) \<and>
         ((\<forall>j ds. \<not> powerStateElementAt text j ds) \<longrightarrow> fst (getPowerState w m io) = Inr (Num (- 1)))"
  using getPowerState_body [OF assms]
  by (auto simp: powerStateOf_first powerStateOf_none toNumber_exact)

theorem getPowerState_first_element_witness:
  "fst (getPowerState
         (sampleWorld (always (Inr ''192.168.1.100'')) (always (Inr (Some sampleChallenge)))
            (always (Inr (answer 200 ''<r:PowerState>8</r:PowerState>''))))
         sampleManager sampleIo) = Inr (Num 8) \<and>
   fst (getPowerState
         (sampleWorld (always (Inr ''192.168.1.100'')) (always (Inr (Some sampleChallenge)))
            (always (Inr (answer 200 ''<a:Body/>''))))
         sampleManager sampleIo) = Inr (Num (- 1))"
proof -
  let ?w = "\<lambda>b. sampleWorld (always (Inr ''192.168.1.100'')) (always (Inr (Some sampleChallenge)))
            (always (Inr (answer 200 b)))"
  have h: "fst (makeRequest (?w b) sampleManager (sampleIo\<lparr>uuidCount := uuidCount sampleIo + 1\<rparr>)
             ''http://schemas.dmtf.org/wbem/wscim/1/wsman/Enumerate''
             (createGetPowerStateRequest (randomUUID (?w b) (uuidCount sampleIo))) 0) = Inr (answer 200 b)" for b
    by (rule sample_request_answered)
  have b: "bodyText (answer 200 b) = Inr b" for b by (simp add: answer_def)
  have e: "powerStateElementAt ''<r:PowerState>8</r:PowerState>'' 0 ''8''"
    by (simp add: powerStateElementAt_match matchPowerStateAt_def isDigitChar_def)
  have n: "\<forall>j ds. \<not> powerStateElementAt ''<a:Body/>'' j ds"
    unfolding no_element_iff [symmetric] by (simp add: matchPowerStateAt_def)
  have v: "decimalValue ''8'' = 8" by (simp add: decimalValue_def digitValue_def)
  show ?thesis
    using getPowerState_first_element [OF h b, of "''<r:PowerState>8</r:PowerState>''" 0 "''8''"]
      getPowerState_first_element [OF h b, of "''<a:Body/>''" 0 "''8''"] e n v
    by (simp add: toNumber_def)
qed

text \<open>
  Without the bound the statement fails: for an element that holds an integer above
  \<open>2^53\<close> that is no double, \<open>parseInt\<close> gives the nearest double.
\<close>

theorem getPowerState_integer_value_counterexample:
  "fst (getPowerState
         (sampleWorld (always (Inr ''192.168.1.100'')) (always (Inr (Some sampleChallenge)))
            (always (Inr (answer 200 ''<r:PowerState>9007199254740993</r:PowerState>''))))
         sampleManager sampleIo) = Inr (Num 9007199254740992) \<and>
   decimalValue ''9007199254740993'' = 9007199254740993"
proof -
  let ?b = "''<r:PowerState>9007199254740993</r:PowerState>''"
  let ?w = "sampleWorld (always (Inr ''192.168.1.100'')) (always (Inr (Some sampleChallenge)))
            (always (Inr (answer 200 ?b)))"
  have h: "fst (makeRequest ?w sampleManager (sampleIo\<lparr>uuidCount := uuidCount sampleIo + 1\<rparr>)
             ''http://schemas.dmtf.org/wbem/wscim/1/wsman/Enumerate''
             (createGetPowerStateRequest (randomUUID ?w (uuidCount sampleIo))) 0) = Inr (answer 200 ?b)"
    by (rule sample_request_answered)
  have b: "bodyText (answer 200 ?b) = Inr ?b" by (simp add: answer_def)
  have dv: "decimalValue ''9007199254740993'' = 9007199254740993"
    by (simp add: decimalValue_def digitValue_def)
  have bl: "bitLength 9007199254740993 = 54"
    by (simp add: bitLength.simps)
  have tn: "toNumber 9007199254740993 = Num 9007199254740992"
    by (simp add: toNumber_def bl Let_def)
  have "powerStateOf ?b = Num 9007199254740992"
    by (simp add: powerStateOf_def matchPowerStateAt_def isDigitChar_def parseInt10_def dv tn)
  with getPowerState_body [OF h b] dv show ?thesis by simp
qed

text \<open>
  Claim C8. When the manager has no resolved host yet and the name lookup fails,
  \<open>makeRequest\<close> fails with the error \<open>Failed to resolve host ...\<close> carrying the message of
  the lookup error; the lookup is the only call made, so neither the probe nor the request
  has been sent and no wait has been started, and \<open>changePowerState\<close> and \<open>getPowerState\<close>
  fail with the same error. When the lookup before a retry fails, the call fails with that
  error at once: that lookup is its last step. In general, a lookup that fails during a
  call of \<open>makeRequest\<close>, in whatever round, is the last call to the outside that the call
  makes, and the call returns the error made from the error of that lookup.
\<close>

theorem resolution_failure_not_retried:
  "(\<not> resolved m \<and> dnsLookup w (lookupCount io) = Inl e \<longrightarrow>
      (\<exists>io'. makeRequest w m io action body n =
          (Inl (newError (''Failed to resolve host '' @ host (config m) @ '': '' @ message e)), m, io') \<and>
        trace io' = trace io @ [Lookup (host (config m)) (if truthy (forceIPv4 (config m)) then 4 else 0)
                                  (truthy (forceIPv4 (config m)))] \<and>
        challengeCount io' = challengeCount io \<and> requestCount io' = requestCount io) \<and>
      fst (changePowerState w m io powerState) =
        Inl (newError (''Failed to resolve host '' @ host (config m) @ '': '' @ message e)) \<and>
      fst (getPowerState w m io) =
        Inl (newError (''Failed to resolve host '' @ host (config m) @ '': '' @ message e))) \<and>
   (resolved m \<and> requestFetch w (requestCount io) = Inl e1 \<and> isConnectionError e1 \<and>
    retriesLeft n (retries (config m)) \<and> dnsLookup w (lookupCount io) = Inl e \<longrightarrow>
      (\<exists>io'. makeRequest w m io action body n =
          (Inl (newError (''Failed to resolve host '' @ host (config m) @ '': '' @ message e)), m, io') \<and>
        requestCount io' = requestCount io + 1 \<and>
        steps (trace io') = steps (trace io) @ [Send action body, Wait (if n \<le> 1014 then Num (1000 * 2 ^ n) else Infinity), Resolve])) \<and>
   (makeRequest w m io action body n = (r, m', io') \<and>
    lookupCount io \<le> k \<and> k < lookupCount io' \<and> dnsLookup w k = Inl e \<longrightarrow>
      k + 1 = lookupCount io' \<and>
      r = Inl (newError (''Failed to resolve host '' @ host (config m) @ '': '' @ message e)) \<and>
      (\<exists>before f a. trace io' = before @ [Lookup (host (config m)) f a]))"
proof (intro conjI impI)
  assume a: "\<not> resolved m \<and> dnsLookup w (lookupCount io) = Inl e"
  then have un: "\<not> resolved m" and dns: "dnsLookup w (lookupCount io) = Inl e" by simp_all
  show "\<exists>io'. makeRequest w m io action body n =
          (Inl (newError (''Failed to resolve host '' @ host (config m) @ '': '' @ message e)), m, io') \<and>
        trace io' = trace io @ [Lookup (host (config m)) (if truthy (forceIPv4 (config m)) then 4 else 0)
                                  (truthy (forceIPv4 (config m)))] \<and>
        challengeCount io' = challengeCount io \<and> requestCount io' = requestCount io"
    by (simp add: makeRequest_unresolved_fail [OF un dns] emit_simps)
  show "fst (changePowerState w m io powerState) =
        Inl (newError (''Failed to resolve host '' @ host (config m) @ '': '' @ message e))"
    by (simp add: changePowerState_def makeRequest_unresolved_fail [OF un dns])
  have "dnsLookup w (lookupCount (io\<lparr>uuidCount := uuidCount io + 1\<rparr>)) = Inl e"
    using dns by simp
  from makeRequest_unresolved_fail [OF un this]
  show "fst (getPowerState w m io) =
        Inl (newError (''Failed to resolve host '' @ host (config m) @ '': '' @ message e))"
    by (simp add: getPowerState_def)
next
  assume "resolved m \<and> requestFetch w (requestCount io) = Inl e1 \<and> isConnectionError e1 \<and>
    retriesLeft n (retries (config m)) \<and> dnsLookup w (lookupCount io) = Inl e"
  then have h: "resolved m" "requestFetch w (requestCount io) = Inl e1" "isConnectionError e1"
    "retriesLeft n (retries (config m))" "dnsLookup w (lookupCount io) = Inl e"
    by blast+
  from makeRequest_retry_unresolvable [OF h, of action body]
  show "\<exists>io'. makeRequest w m io action body n =
          (Inl (newError (''Failed to resolve host '' @ host (config m) @ '': '' @ message e)), m, io') \<and>
        requestCount io' = requestCount io + 1 \<and>
        steps (trace io') = steps (trace io) @ [Send action body, Wait (if n \<le> 1014 then Num (1000 * 2 ^ n) else Infinity), Resolve]"
    by (simp add: backoffDelay_value)
next
  assume a: "makeRequest w m io action body n = (r, m', io') \<and>
    lookupCount io \<le> k \<and> k < lookupCount io' \<and> dnsLookup w k = Inl e"
  then have h: "makeRequest w m io action body n = (r, m', io')" "lookupCount io \<le> k"
    "k < lookupCount io'" "dnsLookup w k = Inl e" by blast+
  from makeRequest_failed_lookup_is_last [OF h]
  show "k + 1 = lookupCount io'"
    "r = Inl (newError (''Failed to resolve host '' @ host (config m) @ '': '' @ message e))"
    "\<exists>before f a. trace io' = before @ [Lookup (host (config m)) f a]" by blast+
qed

theorem resolution_failure_not_retried_witness:
  "(\<exists>io'. makeRequest
       (sampleWorld (always (Inl notFound)) (always (Inr (Some sampleChallenge))) (always (Inr (answer 200 ''done''))))
       sampleManager sampleIo ''act'' ''body'' 0 =
         (Inl (newError ''Failed to resolve host amt.example: getaddrinfo ENOTFOUND amt.example''),
          sampleManager, io') \<and>
      trace io' = [Lookup ''amt.example'' 4 True] \<and> challengeCount io' = 0 \<and> requestCount io' = 0) \<and>
   fst (changePowerState
       (sampleWorld (always (Inl notFound)) (always (Inr (Some sampleChallenge))) (always (Inr (answer 200 ''done''))))
       sampleManager sampleIo PowerOn) =
     Inl (newError ''Failed to resolve host amt.example: getaddrinfo ENOTFOUND amt.example'') \<and>
   fst (getPowerState
       (sampleWorld (always (Inl notFound)) (always (Inr (Some sampleChallenge))) (always (Inr (answer 200 ''done''))))
       sampleManager sampleIo) =
     Inl (newError ''Failed to resolve host amt.example: getaddrinfo ENOTFOUND amt.example'') \<and>
   (\<exists>io'. makeRequest
       (sampleWorld (always (Inl notFound)) (always (Inr (Some sampleChallenge))) (always (Inl connectionReset)))
       sampleResolved sampleIo ''act'' ''body'' 0 =
         (Inl (newError ''Failed to resolve host amt.example: getaddrinfo ENOTFOUND amt.example''),
          sampleResolved, io') \<and>
      requestCount io' = 1 \<and>
      steps (trace io') = [Send ''act'' ''body'', Wait (Num 1000), Resolve])"
proof -
  have a: "isConnectionError connectionReset"
    by (simp add: isConnectionError_def connectionReset_def)
  show ?thesis
    using resolution_failure_not_retried [of sampleManager
        "sampleWorld (always (Inl notFound)) (always (Inr (Some sampleChallenge))) (always (Inr (answer 200 ''done'')))"
        sampleIo notFound "''act''" "''body''" 0 PowerOn connectionReset]
      resolution_failure_not_retried [of sampleResolved
        "sampleWorld (always (Inl notFound)) (always (Inr (Some sampleChallenge))) (always (Inl connectionReset))"
        sampleIo notFound "''act''" "''body''" 0 PowerOn connectionReset]
    by (simp add: sampleWorld_sel always_def failing_def sampleManager_def sampleResolved_def sampleConfig_def sampleIo_def
          notFound_def resolved_def truthy_def retriesLeft_def a steps_Nil)
qed

text \<open>
  Claim C9. When every probe of \<open>getDigestHeader\<close> fails until its retries are used up,
  \<open>makeRequest\<close> goes on: the first step it takes after the resolution on entry is the
  request, sent with the header \<open>Authorization\<close> holding \<open>undefined\<close>. What the call returns
  is decided by that request: if it is answered with a status in 200 to 299, the call
  returns the response.
\<close>

theorem undefined_authorization_is_sent:
  assumes "resolved m \<or> (\<exists>a. dnsLookup w (lookupCount io) = Inr a)"
    and "\<forall>i\<le>nat (case retries (config m) of None \<Rightarrow> 3 | Some k \<Rightarrow> k).
           challengeFails w (challengeCount io + i)"
  shows "\<exists>r m' io' m1 before after.
           makeRequest w m io action body n = (r, m', io') \<and>
           trace io' = before @ RequestFetch (requestOptions m1 None action body) # after \<and>
           steps before = steps (trace io) @ initialSteps m \<and>
           config m1 = config m \<and>
           map_of (reqHeaders (requestOptions m1 None action body)) ''Authorization'' = Some None \<and>
           (\<forall>response. requestFetch w (requestCount io) = Inr response \<and> ok response \<longrightarrow>
              r = Inr response)"
proof -
  from makeRequest_enter [OF assms(1), of action body n] obtain m1 io1 where
    e: "makeRequest w m io action body n = makeRequest w m1 io1 action body n"
    and m1: "resolved m1" "config m1 = config m"
    and io1: "requestCount io1 = requestCount io" "challengeCount io1 = challengeCount io"
      "steps (trace io1) = steps (trace io) @ initialSteps m"
    by blast
  let ?K = "nat (optMaxRetries (digestOptionsOf m1) - int (optRetryCount (digestOptionsOf m1)))"
  have K: "?K = nat (case retries (config m) of None \<Rightarrow> 3 | Some k \<Rightarrow> k)"
    using m1(2) by (simp add: optMaxRetries_def optRetryCount_def digestOptionsOf_def)
  have "\<forall>i\<le>?K. challengeFails w (challengeCount io1 + i)"
    unfolding K io1(2) using assms(2) .
  from getDigestHeader_exhausted [OF this refl] obtain io2 where
    dg: "getDigestHeader w (digestOptionsOf m1) io1 = (None, io2)" by blast
  from getDigestHeader_frame [OF dg]
  have fr: "requestCount io2 = requestCount io1" "steps (trace io2) = steps (trace io1)" by simp_all
  obtain r m' io' where mr: "makeRequest w m1 io1 action body n = (r, m', io')"
    by (metis prod_cases3)
  let ?req = "requestOptions m1 None action body"
  from makeRequest_after_send [OF m1(1) dg mr]
  obtain after where t: "trace io' = trace io2 @ RequestFetch ?req # after"
    by (auto simp: fetched_simps prefix_def)
  have auth: "map_of (reqHeaders ?req) ''Authorization'' = Some None"
    by (simp add: requestOptions_def)
  have dec: "\<forall>response. requestFetch w (requestCount io) = Inr response \<and> ok response \<longrightarrow>
              r = Inr response"
  proof (intro allI impI)
    fix response assume a: "requestFetch w (requestCount io) = Inr response \<and> ok response"
    then have "requestFetch w (requestCount io1) = Inr response" using io1(1) by simp
    from makeRequest_last_ok [OF m1(1) this, of action body n] a mr
    show "r = Inr response" by auto
  qed
  show ?thesis
    using e mr t fr(2) io1(3) m1(2) auth dec
    by (intro exI [of _ r] exI [of _ m'] exI [of _ io'] exI [of _ m1] exI [of _ "trace io2"]
          exI [of _ after]) simp
qed

theorem undefined_authorization_is_sent_witness:
  "\<exists>m' io' m1 before after.
     makeRequest
       (sampleWorld (always (Inr ''192.168.1.100'')) (always (Inr None))
          (always (Inr (answer 200 ''done''))))
       sampleManager sampleIo ''act'' ''body'' 0 = (Inr (answer 200 ''done''), m', io') \<and>
     trace io' = before @ RequestFetch (requestOptions m1 None ''act'' ''body'') # after \<and>
     steps before = [Resolve]"
proof -
  let ?w = "sampleWorld (always (Inr ''192.168.1.100'')) (always (Inr None))
          (always (Inr (answer 200 ''done'')))"
  have a: "resolved sampleManager \<or> (\<exists>a. dnsLookup ?w (lookupCount sampleIo) = Inr a)"
    by (simp add: sampleWorld_sel always_def)
  have b: "\<forall>i\<le>nat (case retries (config sampleManager) of None \<Rightarrow> 3 | Some k \<Rightarrow> k).
           challengeFails ?w (challengeCount sampleIo + i)"
    by (simp add: challengeFails_def sampleWorld_sel always_def)
  from undefined_authorization_is_sent [OF a b, of "''act''" "''body''" 0]
  obtain r m' io' m1 before after where
    m: "makeRequest ?w sampleManager sampleIo ''act'' ''body'' 0 = (r, m', io')"
    and t: "trace io' = before @ RequestFetch (requestOptions m1 None ''act'' ''body'') # after"
    and s: "steps before = steps (trace sampleIo) @ initialSteps sampleManager"
    and d: "\<forall>response. requestFetch ?w (requestCount sampleIo) = Inr response \<and> ok response \<longrightarrow>
              r = Inr response"
    by blast
  have "requestFetch ?w (requestCount sampleIo) = Inr (answer 200 ''done'') \<and> ok (answer 200 ''done'')"
    by (simp add: sampleWorld_sel always_def answer_def ok_def)
  with d have r: "r = Inr (answer 200 ''done'')" by blast
  have "steps before = [Resolve]"
    using s by (simp add: sampleIo_def steps_Nil initialSteps_def resolved_def sampleManager_def)
  with m t r show ?thesis by blast
qed

text \<open>
  Claim C10. The pattern of \<open>getPowerState\<close> holds the literal prefix \<open>r:\<close>. When the body
  read from the response does not contain \<^verbatim>\<open><r:PowerState>\<close>, \<open>getPowerState\<close> returns \<open>-1\<close>,
  also when the body has a power state under another prefix or under none.
\<close>

theorem getPowerState_prefix_literal:
  assumes "fst (makeRequest w m (io\<lparr>uuidCount := uuidCount io + 1\<rparr>)
             ''http://schemas.dmtf.org/wbem/wscim/1/wsman/Enumerate''
             (createGetPowerStateRequest (randomUUID w (uuidCount io))) 0) = Inr response"
    and "bodyText response = Inr text"
    and "\<not> sublist ''<r:PowerState>'' text"
  shows "fst (getPowerState w m io) = Inr (Num (- 1))"
proof -
  from assms(3) have "\<forall>i ds. \<not> powerStateElementAt text i ds"
    by (auto dest: powerStateElementAt_sublist)
  then have "powerStateOf text = Num (- 1)" by (rule powerStateOf_none)
  with getPowerState_body [OF assms(1,2)] show ?thesis by simp
qed

theorem getPowerState_prefix_literal_witness:
  "fst (getPowerState
         (sampleWorld (always (Inr ''192.168.1.100'')) (always (Inr (Some sampleChallenge)))
            (always (Inr (answer 200 ''<g:PowerState>8</g:PowerState>''))))
         sampleManager sampleIo) = Inr (Num (- 1)) \<and>
   fst (getPowerState
         (sampleWorld (always (Inr ''192.168.1.100'')) (always (Inr (Some sampleChallenge)))
            (always (Inr (answer 200 ''<PowerState>8</PowerState>''))))
         sampleManager sampleIo) = Inr (Num (- 1))"
proof -
  let ?w = "\<lambda>b. sampleWorld (always (Inr ''192.168.1.100'')) (always (Inr (Some sampleChallenge)))
            (always (Inr (answer 200 b)))"
  have h: "fst (makeRequest (?w b) sampleManager (sampleIo\<lparr>uuidCount := uuidCount sampleIo + 1\<rparr>)
             ''http://schemas.dmtf.org/wbem/wscim/1/wsman/Enumerate''
             (createGetPowerStateRequest (randomUUID (?w b) (uuidCount sampleIo))) 0) = Inr (answer 200 b)" for b
    by (rule sample_request_answered)
  have b: "bodyText (answer 200 b) = Inr b" for b by (simp add: answer_def)
  have g: "\<not> sublist ''<r:PowerState>'' ''<g:PowerState>8</g:PowerState>''"
    unfolding includesStr_iff [symmetric] by simp
  have n: "\<not> sublist ''<r:PowerState>'' ''<PowerState>8</PowerState>''"
    unfolding includesStr_iff [symmetric] by simp
  from getPowerState_prefix_literal [OF h b g] getPowerState_prefix_literal [OF h b n]
  show ?thesis by simp
qed

end
